theory Spec2Isabelle
  imports Complex_Main "HOL-Library.Word"
begin

unbundle bit_operations_syntax

section \<open>Raw10 unpacker (src/src/Util.cpp)\<close>

text \<open>
  The target is a 64-bit little-endian platform: \<open>size_t\<close> has 64 bits, \<open>uint32_t\<close> and
  \<open>unsigned int\<close> have 32. Values of \<open>size_t\<close> are natural numbers here, since no
  \<open>size_t\<close> expression of the unpacker can reach \<open>2 ^ 64\<close> (every one is a product of
  two 32-bit values or a vector size); values of \<open>uint32_t\<close> are \<open>32 word\<close>, whose
  arithmetic wraps as the C++ does.
\<close>

type_synonym uint8_t = "8 word"
type_synonym uint16_t = "16 word"
type_synonym uint32_t = "32 word"

text \<open>\<open>libcamera::FrameBuffer::Plane\<close>: \<open>unsigned int offset\<close>, \<open>unsigned int length\<close>
  (the file descriptor is not read by the unpacker).\<close>

record Plane =
  offset :: uint32_t
  length_p :: uint32_t

text \<open>\<open>libcamera::FrameBuffer\<close> as far as the unpacker reads it: the planes and the cookie,
  in which \<open>main.cpp\<close> stashes the address of the mapping. The address \<open>0\<close> is the null
  pointer.\<close>

record FrameBuffer =
  planes :: "Plane list"
  cookie :: nat

text \<open>
  The memory of the process is a function from addresses to bytes. The C++ reads through
  an unchecked pointer, so the model reads whatever the address holds and records the
  index of every byte read, relative to \<open>src\<close>, in the field \<open>rd\<close>: a claim on the bounds
  of the reads is a claim on that list.

  A store \<open>dst[outIdx++] = p\<close> past the end of the vector has no defined behaviour; it is the
  fault \<open>WriteOutOfBounds\<close>.
\<close>

type_synonym memory = "nat \<Rightarrow> uint8_t"

datatype fault = WriteOutOfBounds

record ustate =
  dst :: "uint16_t list"
  outIdx :: nat
  rd :: "nat list"

definition store :: "uint16_t \<Rightarrow> ustate \<Rightarrow> fault + ustate" where
  "store p s =
     (if outIdx s < length (dst s)
      then Inr (s\<lparr>dst := (dst s)[outIdx s := p], outIdx := outIdx s + 1\<rparr>)
      else Inl WriteOutOfBounds)"

text \<open>\<open>if (c) dst[outIdx++] = p;\<close> after the statements that gave \<open>r\<close>.\<close>

definition store_if :: "bool \<Rightarrow> uint16_t \<Rightarrow> fault + ustate \<Rightarrow> fault + ustate" where
  "store_if c p r =
     (case r of Inl e \<Rightarrow> Inl e | Inr s \<Rightarrow> if c then store p s else Inr s)"

text \<open>The body of the \<open>while\<close> loop (lines 99 to 119): five reads at \<open>line\<close>, four pixels,
  up to four guarded stores. The operands of \<open>|\<close>, \<open>&\<close>, \<open><<\<close> and \<open>>>\<close> are promoted to
  \<open>int\<close> and the result is narrowed to \<open>uint16_t\<close>; no value exceeds ten bits, so the
  operations are taken on 16-bit words. \<open>x + 1\<close>, \<open>x + 2\<close> and \<open>x + 3\<close> are 32-bit
  additions.\<close>

definition group_body ::
  "memory \<Rightarrow> nat \<Rightarrow> uint32_t \<Rightarrow> uint32_t \<Rightarrow> nat \<Rightarrow> ustate \<Rightarrow> fault + ustate" where
  "group_body mem src width x line s =
     (let b0 = mem (src + line + 0);
          b1 = mem (src + line + 1);
          b2 = mem (src + line + 2);
          b3 = mem (src + line + 3);
          b4 = mem (src + line + 4);
          s0 = s\<lparr>rd := rd s @ [line + 0, line + 1, line + 2, line + 3, line + 4]\<rparr>;
          p0 = ucast b0 OR push_bit 8 (ucast (b4 AND 0x03));
          p1 = ucast b1 OR push_bit 8 (ucast (drop_bit 2 b4 AND 0x03));
          p2 = ucast b2 OR push_bit 8 (ucast (drop_bit 4 b4 AND 0x03));
          p3 = ucast b3 OR push_bit 8 (ucast (drop_bit 6 b4 AND 0x03))
      in store_if (x + 3 < width) p3
           (store_if (x + 2 < width) p2
             (store_if (x + 1 < width) p1
               (store_if (x < width) p0 (Inr s0)))))"

text \<open>The \<open>while (x < width)\<close> loop of one row (lines 97 to 123), with \<open>line += 5\<close> and the
  32-bit \<open>x += 4\<close>. Every iteration stores at least the pixel \<open>p0\<close>, so the free room of
  \<open>dst\<close> shrinks on every iteration that does not fault.\<close>

function row_loop ::
  "memory \<Rightarrow> nat \<Rightarrow> uint32_t \<Rightarrow> uint32_t \<Rightarrow> nat \<Rightarrow> ustate \<Rightarrow> fault + ustate" where
  "row_loop mem src width x line s =
     (if x < width
      then (case group_body mem src width x line s of
              Inl e \<Rightarrow> Inl e
            | Inr s' \<Rightarrow> row_loop mem src width (x + 4) (line + 5) s')
      else Inr s)"
  by pat_completeness auto
termination
  by (relation "measure (\<lambda>(mem, src, width, x, line, s). length (dst s) - outIdx s)")
     (auto simp: group_body_def store_if_def store_def Let_def split: if_splits sum.splits)

declare row_loop.simps [simp del]

text \<open>The \<open>for (uint32_t y = 0; y < height; ++y)\<close> loop (lines 93 to 124);
  \<open>line = src + y * packedStride\<close> is a \<open>size_t\<close> product.\<close>

function frame_loop ::
  "memory \<Rightarrow> nat \<Rightarrow> uint32_t \<Rightarrow> uint32_t \<Rightarrow> nat \<Rightarrow> uint32_t \<Rightarrow> ustate \<Rightarrow> fault + ustate" where
  "frame_loop mem src width height packedStride y s =
     (if y < height
      then (case row_loop mem src width 0 (unat y * packedStride) s of
              Inl e \<Rightarrow> Inl e
            | Inr s' \<Rightarrow> frame_loop mem src width height packedStride (y + 1) s')
      else Inr s)"
  by pat_completeness auto
termination
proof (relation "measure (\<lambda>(mem, src, width, height, packedStride, y, s). unat height - unat y)")
  show "wf (measure (\<lambda>(mem, src, width, height, packedStride, y, s). unat height - unat y))"
    by simp
next
  fix mem :: memory and src :: nat and width height y :: uint32_t
    and packedStride :: nat and s x2 :: ustate
  assume "y < height"
  then have below: "unat y < unat height"
    by (simp add: word_less_nat_alt)
  moreover have "unat height < 2 ^ 32"
    using unsigned_less [of height] by simp
  ultimately have "unat y + 1 < 2 ^ 32"
    by linarith
  then have "unat (y + 1) = unat y + 1"
    by (simp add: unat_word_ariths)
  with below show "((mem, src, width, height, packedStride, y + 1, x2),
              (mem, src, width, height, packedStride, y, s))
             \<in> measure (\<lambda>(mem, src, width, height, packedStride, y, s). unat height - unat y)"
    by simp
qed

declare frame_loop.simps [simp del]

text \<open>\<open>const size_t packedStride = (width * 10 + 7) / 8;\<close> (line 87): \<open>width * 10 + 7\<close> is
  computed in \<open>uint32_t\<close> and wraps; only the quotient is widened to \<open>size_t\<close>.\<close>

definition packedStride :: "uint32_t \<Rightarrow> nat" where
  "packedStride width = unat ((width * 10 + 7) div 8)"

text \<open>\<open>util::unpackRaw10To16\<close> (lines 62 to 126). The frame buffer pointer is \<open>None\<close> when
  null. The result is the returned \<open>bool\<close> with the final state; on each early
  \<open>return false\<close> the state is the initial one.\<close>

definition unpackRaw10To16 ::
  "memory \<Rightarrow> FrameBuffer option \<Rightarrow> uint32_t \<Rightarrow> uint32_t \<Rightarrow> uint16_t list
     \<Rightarrow> fault + (bool \<times> ustate)" where
  "unpackRaw10To16 mem fb width height dst0 =
     (let s0 = \<lparr>dst = dst0, outIdx = 0, rd = []\<rparr> in
      case fb of
        None \<Rightarrow> Inr (False, s0)
      | Some fb \<Rightarrow>
          if length dst0 \<noteq> unat width * unat height then Inr (False, s0)
          else if length (planes fb) \<noteq> 1 then Inr (False, s0)
          else
            let p = planes fb ! 0;
                off = unat (offset p);
                len = unat (length_p p);
                base = cookie fb
            in if base = 0 then Inr (False, s0)
               else
                 let src = base + off;
                     expected = packedStride width * unat height
                 in if len < expected then Inr (False, s0)
                    else (case frame_loop mem src width height (packedStride width) 0 s0 of
                            Inl e \<Rightarrow> Inl e
                          | Inr s \<Rightarrow> Inr (True, s)))"

section \<open>Bayer layout (src/include/DngWriter.hpp, src/src/DngWriter.cpp)\<close>

datatype BayerPattern = RGGB | BGGR | GRBG | GBRG

text \<open>\<open>bayerPattern2x2\<close> (lines 76 to 91): the \<open>std::array<uint8_t, 4>\<close> is a list of four
  bytes. The \<open>return\<close> after the \<open>switch\<close> is reached by no value of the enumeration.\<close>

fun bayerPattern2x2 :: "BayerPattern \<Rightarrow> uint8_t list" where
  "bayerPattern2x2 RGGB = [0, 1, 1, 2]"
| "bayerPattern2x2 BGGR = [2, 1, 1, 0]"
| "bayerPattern2x2 GRBG = [1, 0, 2, 1]"
| "bayerPattern2x2 GBRG = [1, 2, 0, 1]"

text \<open>\<open>toBayer\<close> (lines 95 to 106).\<close>

definition toBayer :: "string \<Rightarrow> BayerPattern" where
  "toBayer s =
     (if s = ''RGGB'' then RGGB
      else if s = ''BGGR'' then BGGR
      else if s = ''GRBG'' then GRBG
      else if s = ''GBRG'' then GBRG
      else RGGB)"

section \<open>DNG writer (src/src/DngWriter.cpp)\<close>

text \<open>
  \<open>struct DngMeta\<close>. A \<open>float\<close> is modelled by the real number it denotes. The two
  informational fields are never read by the writer; \<open>cfaIlluminant\<close> is read once, through
  \<open>static_cast<uint16_t>\<close>, which truncates towards zero. Outside \<open>0..65535\<close> the C++
  conversion has no defined result: the model keeps the low 16 bits of the truncated value
  there only to be a total function, a compiled program may give any other value, and no
  property below depends on the value.
\<close>

record DngMeta =
  width :: uint32_t
  height :: uint32_t
  bayer :: BayerPattern
  bitsPerSample :: uint16_t
  blackLevel :: uint16_t
  whiteLevel :: uint16_t
  analogGain :: real
  exposureSeconds :: real
  cfaIlluminant :: real

definition float_to_uint16 :: "real \<Rightarrow> uint16_t" where
  "float_to_uint16 x = word_of_int (if 0 \<le> x then \<lfloor>x\<rfloor> else \<lceil>x\<rceil>)"

text \<open>\<open>struct IfdEntry\<close>: twelve bytes, no padding.\<close>

record IfdEntry =
  tag :: uint16_t
  type_e :: uint16_t
  count :: uint32_t
  value_e :: uint32_t

text \<open>The TIFF type codes and the tag identifiers (lines 34 to 67).\<close>

definition TYPE_BYTE :: uint16_t where "TYPE_BYTE = 1"
definition TYPE_ASCII :: uint16_t where "TYPE_ASCII = 2"
definition TYPE_SHORT :: uint16_t where "TYPE_SHORT = 3"
definition TYPE_LONG :: uint16_t where "TYPE_LONG = 4"
definition TYPE_RATIONAL :: uint16_t where "TYPE_RATIONAL = 5"

definition TAG_ImageWidth :: uint16_t where "TAG_ImageWidth = 256"
definition TAG_ImageLength :: uint16_t where "TAG_ImageLength = 257"
definition TAG_BitsPerSample :: uint16_t where "TAG_BitsPerSample = 258"
definition TAG_Compression :: uint16_t where "TAG_Compression = 259"
definition TAG_Photometric :: uint16_t where "TAG_Photometric = 262"
definition TAG_StripOffsets :: uint16_t where "TAG_StripOffsets = 273"
definition TAG_SamplesPerPixel :: uint16_t where "TAG_SamplesPerPixel = 277"
definition TAG_RowsPerStrip :: uint16_t where "TAG_RowsPerStrip = 278"
definition TAG_StripByteCounts :: uint16_t where "TAG_StripByteCounts = 279"
definition TAG_PlanarConfig :: uint16_t where "TAG_PlanarConfig = 284"
definition TAG_CFARepeatPattern :: uint16_t where "TAG_CFARepeatPattern = 33421"
definition TAG_CFAPattern :: uint16_t where "TAG_CFAPattern = 33422"
definition TAG_DNGVersion :: uint16_t where "TAG_DNGVersion = 50706"
definition TAG_UniqueCameraModel :: uint16_t where "TAG_UniqueCameraModel = 50708"
definition TAG_CFAPlaneColor :: uint16_t where "TAG_CFAPlaneColor = 50710"
definition TAG_BlackLevel :: uint16_t where "TAG_BlackLevel = 50714"
definition TAG_WhiteLevel :: uint16_t where "TAG_WhiteLevel = 50717"
definition TAG_DefaultScale :: uint16_t where "TAG_DefaultScale = 50733"
definition TAG_CalibrationIlluminant1 :: uint16_t where "TAG_CalibrationIlluminant1 = 50778"
definition TAG_ColorMatrix1 :: uint16_t where "TAG_ColorMatrix1 = 50721"

subsection \<open>The output stream\<close>

text \<open>
  A \<open>std::ofstream\<close> is the bytes of the file and the put position. \<open>write\<close> overwrites
  from the position on and extends the file; after a \<open>seekp\<close> past the end, the bytes
  skipped read as zero (a POSIX file hole). A write of no bytes changes nothing. Writes
  and seeks on an open stream succeed: the writer never tests the stream after opening it.
  Objects are written as they lie in memory, which on the little-endian target is least
  significant byte first.
\<close>

record ofstream =
  buf :: "uint8_t list"
  pos :: nat

definition f_write :: "uint8_t list \<Rightarrow> ofstream \<Rightarrow> ofstream" where
  "f_write bs f =
     (if bs = [] then f
      else \<lparr>buf = take (pos f) (buf f) @ replicate (pos f - length (buf f)) 0 @ bs
                   @ drop (pos f + length bs) (buf f),
            pos = pos f + length bs\<rparr>)"

definition seekp :: "nat \<Rightarrow> ofstream \<Rightarrow> ofstream" where
  "seekp p f = f\<lparr>pos := p\<rparr>"

definition tellp :: "ofstream \<Rightarrow> nat" where
  "tellp f = pos f"

definition le16 :: "uint16_t \<Rightarrow> uint8_t list" where
  "le16 v = [ucast v, ucast (drop_bit 8 v)]"

definition le32 :: "uint32_t \<Rightarrow> uint8_t list" where
  "le32 v = [ucast v, ucast (drop_bit 8 v), ucast (drop_bit 16 v), ucast (drop_bit 24 v)]"

text \<open>The lambdas of \<open>DngWriter::write\<close> (lines 135 to 192), each taking the stream it
  captures and returning it with its result. The lambda \<open>writeValue\<close> (lines 129 to 133) and
  the function \<open>bayerToPlane\<close> (lines 69 to 74) are never called.\<close>

definition currentOffset :: "ofstream \<Rightarrow> uint32_t" where
  "currentOffset f = word_of_nat (tellp f)"

definition align2 :: "ofstream \<Rightarrow> ofstream" where
  "align2 f = (if currentOffset f AND 1 \<noteq> 0 then f_write [0] f else f)"

definition writeArraySHORT :: "uint16_t list \<Rightarrow> ofstream \<Rightarrow> uint32_t \<times> ofstream" where
  "writeArraySHORT arr f =
     (let f1 = align2 f;
          off = currentOffset f1
      in (off, fold (\<lambda>v. f_write (le16 v)) arr f1))"

definition writeArrayBYTE :: "uint8_t list \<Rightarrow> ofstream \<Rightarrow> uint32_t \<times> ofstream" where
  "writeArrayBYTE arr f =
     (let f1 = align2 f;
          off = currentOffset f1
      in (off, f_write arr f1))"

definition writeArrayRATIONAL ::
  "(uint32_t \<times> uint32_t) list \<Rightarrow> ofstream \<Rightarrow> uint32_t \<times> ofstream" where
  "writeArrayRATIONAL arr f =
     (let f1 = align2 f;
          off = currentOffset f1
      in (off, fold (\<lambda>p g. f_write (le32 (snd p)) (f_write (le32 (fst p)) g)) arr f1))"

definition writeAscii :: "string \<Rightarrow> ofstream \<Rightarrow> uint32_t \<times> ofstream" where
  "writeAscii s f =
     (let z = map of_char s @ [0];
          off = currentOffset f
      in (off, f_write z f))"

definition cameraModel :: string where
  "cameraModel = ''Raspberry Pi Global Shutter Camera IMX296''"

text \<open>The header (lines 120 to 124): \<open>"II"\<close>, 42, and \<open>sizeof(TiffHeader) = 8\<close> as the offset
  of the directory.\<close>

definition tiffHeader :: "uint8_t list" where
  "tiffHeader = le16 0x4949 @ le16 42 @ le32 8"

text \<open>The offsets that the data-block phase records in local variables.\<close>

record offsets =
  bpsOff :: uint32_t
  cfaDimOff :: uint32_t
  cfaPattOff :: uint32_t
  cfaPlaneColorOff :: uint32_t
  defaultScaleOff :: uint32_t
  dngVerOff :: uint32_t
  ucmOff :: uint32_t
  blackOff :: uint32_t
  whiteOff :: uint32_t
  cmOff :: uint32_t
  stripOffset :: uint32_t
  stripByteCount :: uint32_t

text \<open>Lines 194 to 244: the data blocks and the pixel strip, written in this order behind
  the reserved region. \<open>f.write(pixels.data(), bytes)\<close> writes the first \<open>bytes\<close> bytes of
  the samples as they lie in memory; \<open>stripByteCount\<close> is \<open>bytes\<close> narrowed to 32 bits.
  \<open>bytes = size_t(w) * h * 2\<close> is a natural number: the call has passed the size test, so
  \<open>w * h\<close> is the size of a vector, and twice that is below \<open>2 ^ 64\<close>.\<close>

definition writeBlocks :: "DngMeta \<Rightarrow> uint16_t list \<Rightarrow> ofstream \<Rightarrow> offsets \<times> ofstream" where
  "writeBlocks meta pixels f0 =
     (let (bps, f1) = writeArraySHORT [bitsPerSample meta] f0;
          (cfaDim, f2) = writeArraySHORT [2, 2] f1;
          patt = bayerPattern2x2 (bayer meta);
          (cfaPatt, f3) = writeArrayBYTE [patt ! 0, patt ! 1, patt ! 2, patt ! 3] f2;
          (cfaPlaneColor, f4) = writeArrayBYTE [0, 1, 2] f3;
          (defaultScale, f5) = writeArrayRATIONAL [(1, 1), (1, 1)] f4;
          (dngVer, f6) = writeArrayBYTE [1, 4, 0, 0] f5;
          (ucm, f7) = writeAscii cameraModel f6;
          (black, f8) = writeArraySHORT [blackLevel meta] f7;
          (white, f9) = writeArraySHORT [whiteLevel meta] f8;
          (cm, f10) = writeArrayRATIONAL
             [(1, 1), (0, 1), (0, 1), (0, 1), (1, 1), (0, 1), (0, 1), (0, 1), (1, 1)] f9;
          f11 = align2 f10;
          strip = currentOffset f11;
          bytes = unat (width meta) * unat (height meta) * 2;
          f12 = f_write (take bytes (concat (map le16 pixels))) f11
      in (\<lparr>bpsOff = bps, cfaDimOff = cfaDim, cfaPattOff = cfaPatt,
           cfaPlaneColorOff = cfaPlaneColor, defaultScaleOff = defaultScale,
           dngVerOff = dngVer, ucmOff = ucm, blackOff = black, whiteOff = white,
           cmOff = cm, stripOffset = strip, stripByteCount = word_of_nat bytes\<rparr>, f12))"

text \<open>Lines 246 to 273: \<open>push\<close> appends \<open>IfdEntry e{tag, type, count, value}\<close> to the
  vector \<open>ifd\<close>; the twenty calls give the entries below, in this order. \<open>spp\<close> is 1, and
  the illuminant is the converted \<open>cfaIlluminant\<close>, widened to 32 bits.\<close>

definition entry :: "uint16_t \<Rightarrow> uint16_t \<Rightarrow> uint32_t \<Rightarrow> uint32_t \<Rightarrow> IfdEntry" where
  "entry t ty n v = \<lparr>tag = t, type_e = ty, count = n, value_e = v\<rparr>"

definition assembleIfd :: "DngMeta \<Rightarrow> offsets \<Rightarrow> IfdEntry list" where
  "assembleIfd meta off =
     [entry TAG_ImageWidth TYPE_LONG 1 (width meta),
      entry TAG_ImageLength TYPE_LONG 1 (height meta),
      entry TAG_BitsPerSample TYPE_SHORT 1 (bpsOff off),
      entry TAG_Compression TYPE_SHORT 1 1,
      entry TAG_Photometric TYPE_SHORT 1 32803,
      entry TAG_SamplesPerPixel TYPE_SHORT 1 1,
      entry TAG_PlanarConfig TYPE_SHORT 1 1,
      entry TAG_RowsPerStrip TYPE_LONG 1 (height meta),
      entry TAG_StripOffsets TYPE_LONG 1 (stripOffset off),
      entry TAG_StripByteCounts TYPE_LONG 1 (stripByteCount off),
      entry TAG_CFARepeatPattern TYPE_SHORT 2 (cfaDimOff off),
      entry TAG_CFAPattern TYPE_BYTE 4 (cfaPattOff off),
      entry TAG_CFAPlaneColor TYPE_BYTE 3 (cfaPlaneColorOff off),
      entry TAG_DNGVersion TYPE_BYTE 4 (dngVerOff off),
      entry TAG_UniqueCameraModel TYPE_ASCII (word_of_nat (length cameraModel + 1)) (ucmOff off),
      entry TAG_BlackLevel TYPE_SHORT 1 (blackOff off),
      entry TAG_WhiteLevel TYPE_SHORT 1 (whiteOff off),
      entry TAG_DefaultScale TYPE_RATIONAL 2 (defaultScaleOff off),
      entry TAG_CalibrationIlluminant1 TYPE_SHORT 1 (ucast (float_to_uint16 (cfaIlluminant meta))),
      entry TAG_ColorMatrix1 TYPE_RATIONAL 9 (cmOff off)]"

text \<open>Lines 275 to 285: back to \<open>ifdStart\<close>, the count, the entries \<open>ifd[i]\<close> for
  \<open>i < actualCount\<close>, the zero offset of the next directory, and forward again.
  \<open>actualCount\<close> is a \<open>uint16_t\<close> incremented by every \<open>push\<close>.\<close>

definition entryBytes :: "IfdEntry \<Rightarrow> uint8_t list" where
  "entryBytes e = le16 (tag e) @ le16 (type_e e) @ le32 (count e) @ le32 (value_e e)"

definition writeIfd :: "nat \<Rightarrow> IfdEntry list \<Rightarrow> ofstream \<Rightarrow> ofstream" where
  "writeIfd ifdStart ifd f =
     (let actualCount = (word_of_nat (length ifd) :: uint16_t);
          endPos = tellp f;
          f1 = seekp ifdStart f;
          f2 = f_write (le16 actualCount) f1;
          f3 = fold (\<lambda>i. f_write (entryBytes (ifd ! i))) [0..<unat actualCount] f2;
          f4 = f_write (le32 0) f3
      in seekp endPos f4)"

text \<open>The stream of a call that has opened its file (lines 119 to 285): the header, the
  position \<open>ifdStart\<close> behind it, the skip over the region reserved for \<open>entryCount = 22\<close>
  entries of \<open>sizeof(IfdEntry) = 12\<close> bytes, the data blocks and the strip, the directory.\<close>

definition ifdStart :: nat where
  "ifdStart = tellp (f_write tiffHeader \<lparr>buf = [], pos = 0\<rparr>)"

definition writeStream :: "DngMeta \<Rightarrow> uint16_t list \<Rightarrow> offsets \<times> ofstream" where
  "writeStream meta pixels =
     (let f0 = f_write tiffHeader \<lparr>buf = [], pos = 0\<rparr>;
          f1 = seekp (ifdStart + (2 + 22 * 12 + 4)) f0;
          (off, f2) = writeBlocks meta pixels f1
      in (off, writeIfd ifdStart (assembleIfd meta off) f2))"

text \<open>
  The file system: the contents of the files, and the paths at which \<open>std::ofstream\<close> can
  open a file for writing. \<open>DngWriter::write\<close> (lines 108 to 288) returns \<open>false\<close> on a size
  mismatch and on a stream that did not open; otherwise the file at \<open>path\<close> holds what the
  stream wrote when the stream is closed on return.
\<close>

record filesystem =
  files :: "string \<Rightarrow> uint8_t list option"
  can_open :: "string \<Rightarrow> bool"

definition DngWriter_write ::
  "string \<Rightarrow> DngMeta \<Rightarrow> uint16_t list \<Rightarrow> filesystem \<Rightarrow> bool \<times> filesystem" where
  "DngWriter_write path meta pixels fs =
     (let w = width meta; h = height meta in
      if length pixels \<noteq> unat w * unat h then (False, fs)
      else if \<not> can_open fs path then (False, fs)
      else (True, fs\<lparr>files := (files fs)(path \<mapsto> buf (snd (writeStream meta pixels)))\<rparr>))"

section \<open>Functions in which the properties are stated\<close>

text \<open>
  None of the functions of this section is part of the program; each names a value that the
  statements below compare the program with.

  \<open>write_at xs i ys\<close> is \<open>xs\<close> with the elements from index \<open>i\<close> on replaced by \<open>ys\<close>.
  \<open>pixel b b4 k\<close> is the pixel \<open>k\<close> of a group with low byte \<open>b\<close> and fifth byte \<open>b4\<close>;
  \<open>group_pixels mem a\<close> are the four pixels of the group whose five bytes start at address
  \<open>a\<close>, and \<open>group_reads line\<close> the five indices read for a group at \<open>line\<close>.
  \<open>store_all ps s\<close> stores the samples \<open>ps\<close> one after the other.
  \<open>row_pixels mem a n\<close> are the first \<open>n\<close> pixels of the groups that start at \<open>a\<close>, and
  \<open>row_reads line n\<close> the indices read for them; \<open>frame_pixels\<close> and \<open>frame_reads\<close> do
  the same for \<open>h\<close> rows that lie \<open>S\<close> bytes apart.
\<close>

definition write_at :: "'a list \<Rightarrow> nat \<Rightarrow> 'a list \<Rightarrow> 'a list" where
  "write_at xs i ys = take i xs @ ys @ drop (i + length ys) xs"

definition pixel :: "uint8_t \<Rightarrow> uint8_t \<Rightarrow> nat \<Rightarrow> uint16_t" where
  "pixel b b4 k = ucast b OR push_bit 8 (ucast (drop_bit (2 * k) b4 AND 0x03))"

definition group_pixels :: "memory \<Rightarrow> nat \<Rightarrow> uint16_t list" where
  "group_pixels mem a =
     [pixel (mem (a + 0)) (mem (a + 4)) 0, pixel (mem (a + 1)) (mem (a + 4)) 1,
      pixel (mem (a + 2)) (mem (a + 4)) 2, pixel (mem (a + 3)) (mem (a + 4)) 3]"

definition group_reads :: "nat \<Rightarrow> nat list" where
  "group_reads line = [line + 0, line + 1, line + 2, line + 3, line + 4]"

definition store_all :: "uint16_t list \<Rightarrow> ustate \<Rightarrow> fault + ustate" where
  "store_all ps s =
     (if outIdx s + length ps \<le> length (dst s)
      then Inr (s\<lparr>dst := write_at (dst s) (outIdx s) ps, outIdx := outIdx s + length ps\<rparr>)
      else Inl WriteOutOfBounds)"

definition row_pixels :: "memory \<Rightarrow> nat \<Rightarrow> nat \<Rightarrow> uint16_t list" where
  "row_pixels mem a n =
     map (\<lambda>i. pixel (mem (a + 5 * (i div 4) + i mod 4)) (mem (a + 5 * (i div 4) + 4)) (i mod 4))
       [0..<n]"

definition row_reads :: "nat \<Rightarrow> nat \<Rightarrow> nat list" where
  "row_reads line n = concat (map (\<lambda>g. group_reads (line + 5 * g)) [0..<(n + 3) div 4])"

definition frame_pixels :: "memory \<Rightarrow> nat \<Rightarrow> nat \<Rightarrow> nat \<Rightarrow> nat \<Rightarrow> uint16_t list" where
  "frame_pixels mem src S w h = concat (map (\<lambda>r. row_pixels mem (src + r * S) w) [0..<h])"

definition frame_reads :: "nat \<Rightarrow> nat \<Rightarrow> nat \<Rightarrow> nat list" where
  "frame_reads S w h = concat (map (\<lambda>r. row_reads (r * S) w) [0..<h])"

text \<open>The address \<open>src\<close> of a frame buffer with a plane, and the four tests that
  \<open>unpackRaw10To16\<close> makes on a frame buffer that is not null.\<close>

definition src_of :: "FrameBuffer \<Rightarrow> nat" where
  "src_of fb = cookie fb + unat (offset (planes fb ! 0))"

definition accepted :: "FrameBuffer \<Rightarrow> uint32_t \<Rightarrow> uint32_t \<Rightarrow> uint16_t list \<Rightarrow> bool" where
  "accepted fb w h dst0 \<longleftrightarrow>
     length dst0 = unat w * unat h \<and> length (planes fb) = 1 \<and> cookie fb \<noteq> 0
     \<and> packedStride w * unat h \<le> unat (length_p (planes fb ! 0))"

text \<open>Modelled from the spec: the packer of the round trip, which the sources do not hold.
  ``The fifth byte packs the four pixels' two high-order bits, pixel0 in bits 0--1 through
  pixel3 in bits 6--7'', and the first four bytes are the low eight bits of the four pixels.
  A buffer of rows whose width is a multiple of four is packed group after group; samples
  that do not fill a group are dropped.\<close>

definition high_bits :: "uint16_t \<Rightarrow> uint16_t \<Rightarrow> uint16_t \<Rightarrow> uint16_t \<Rightarrow> uint8_t" where
  "high_bits p0 p1 p2 p3 =
     (ucast (drop_bit 8 p0) AND 0x03)
     OR push_bit 2 (ucast (drop_bit 8 p1) AND 0x03)
     OR push_bit 4 (ucast (drop_bit 8 p2) AND 0x03)
     OR push_bit 6 (ucast (drop_bit 8 p3) AND 0x03)"

fun pack10 :: "uint16_t list \<Rightarrow> uint8_t list" where
  "pack10 (p0 # p1 # p2 # p3 # ps) =
     [ucast p0, ucast p1, ucast p2, ucast p3, high_bits p0 p1 p2 p3] @ pack10 ps"
| "pack10 ps = []"

section \<open>The layout in which the writer's properties are stated\<close>

text \<open>
  As above, none of these functions is part of the program. \<open>rational n d\<close> is a rational as
  the writer emits it, numerator first. \<open>dataBlocks\<close> are the bytes of the out-of-line
  blocks in the order of the calls, with the one pad byte that \<open>align2\<close> inserts behind the
  three bytes of the plane colours; \<open>stripBytes\<close> are the bytes of the strip;
  \<open>ifdBytes\<close> is a directory table: the count, the entries, the zero offset of the next
  directory. \<open>layoutOffsets\<close> are the offsets that the data-block phase turns out to
  record (lemma \<open>writeStream_eq\<close>).
\<close>

definition rational :: "uint32_t \<Rightarrow> uint32_t \<Rightarrow> uint8_t list" where
  "rational n d = le32 n @ le32 d"

definition dataBlocks :: "DngMeta \<Rightarrow> uint8_t list" where
  "dataBlocks meta =
     le16 (bitsPerSample meta)
     @ (le16 2 @ le16 2)
     @ bayerPattern2x2 (bayer meta)
     @ [0, 1, 2]
     @ [0]
     @ (rational 1 1 @ rational 1 1)
     @ [1, 4, 0, 0]
     @ (map of_char cameraModel @ [0])
     @ le16 (blackLevel meta)
     @ le16 (whiteLevel meta)
     @ (rational 1 1 @ rational 0 1 @ rational 0 1
        @ rational 0 1 @ rational 1 1 @ rational 0 1
        @ rational 0 1 @ rational 0 1 @ rational 1 1)"

definition stripBytes :: "DngMeta \<Rightarrow> uint16_t list \<Rightarrow> uint8_t list" where
  "stripBytes meta pixels =
     take (unat (width meta) * unat (height meta) * 2) (concat (map le16 pixels))"

definition ifdBytes :: "IfdEntry list \<Rightarrow> uint8_t list" where
  "ifdBytes ifd = le16 (word_of_nat (length ifd)) @ concat (map entryBytes ifd) @ le32 0"

definition layoutOffsets :: "DngMeta \<Rightarrow> offsets" where
  "layoutOffsets meta =
     \<lparr>bpsOff = 278, cfaDimOff = 280, cfaPattOff = 284, cfaPlaneColorOff = 288,
      defaultScaleOff = 292, dngVerOff = 308, ucmOff = 312, blackOff = 354, whiteOff = 356,
      cmOff = 358, stripOffset = 430,
      stripByteCount = word_of_nat (unat (width meta) * unat (height meta) * 2)\<rparr>"

text \<open>Modelled from the spec: the sizes of the element types, of which the sources hold
  the codes only. Blocks are ``arrays of 1/2/4-byte elements, NUL-terminated ASCII strings,
  or rational pairs (2 x 4-byte integers)'': 1 byte for BYTE and ASCII, 2 for SHORT, 4 for
  LONG, 8 for RATIONAL. The payload of a directory entry is the size of its type times its
  count; an entry whose payload exceeds four bytes cannot hold it in its value field.\<close>

definition type_size :: "uint16_t \<Rightarrow> nat" where
  "type_size t =
     (if t = TYPE_BYTE then 1
      else if t = TYPE_ASCII then 1
      else if t = TYPE_SHORT then 2
      else if t = TYPE_LONG then 4
      else if t = TYPE_RATIONAL then 8
      else 0)"

definition payload :: "IfdEntry \<Rightarrow> nat" where
  "payload e = type_size (type_e e) * unat (count e)"

text \<open>An input for the examples: the end-to-end scenario of an 8 by 2 image, mosaic GBRG,
  black level 64, white level 1023, every sample 512, written to a file system without
  files.\<close>

definition example_meta :: DngMeta where
  "example_meta =
     \<lparr>width = 8, height = 2, bayer = GBRG, bitsPerSample = 16, blackLevel = 64,
      whiteLevel = 1023, analogGain = 1, exposureSeconds = 0.008, cfaIlluminant = 21\<rparr>"

definition example_pixels :: "uint16_t list" where
  "example_pixels = replicate 16 512"

definition example_fs :: filesystem where
  "example_fs = \<lparr>files = Map.empty, can_open = (\<lambda>p. True)\<rparr>"

section \<open>The unpacker's loops in closed form\<close>

subsection \<open>Stores\<close>

lemma write_at_nil [simp]: "i \<le> length xs \<Longrightarrow> write_at xs i [] = xs"
  by (simp add: write_at_def)

lemma length_write_at [simp]:
  "i + length ys \<le> length xs \<Longrightarrow> length (write_at xs i ys) = length xs"
  by (simp add: write_at_def)

lemma write_at_single:
  "i < length xs \<Longrightarrow> xs[i := y] = write_at xs i [y]"
  by (simp add: write_at_def upd_conv_take_nth_drop)

lemma write_at_write_at:
  "i + length ys + length zs \<le> length xs \<Longrightarrow>
     write_at (write_at xs i ys) (i + length ys) zs = write_at xs i (ys @ zs)"
  by (simp add: write_at_def ac_simps)

lemma write_at_snoc:
  "i + length ys < length xs \<Longrightarrow>
     (write_at xs i ys)[i + length ys := z] = write_at xs i (ys @ [z])"
  using write_at_write_at [of i ys "[z]" xs]
  by (simp add: write_at_single)

lemma write_at_all: "length ys = length xs \<Longrightarrow> write_at xs 0 ys = ys"
  by (simp add: write_at_def)

lemma store_first: "store_if True p (Inr s) = store_all [p] s"
  by (auto simp: store_if_def store_def store_all_def write_at_single)

lemma store_next: "store_if True p (store_all ps s) = store_all (ps @ [p]) s"
  by (auto simp: store_if_def store_def store_all_def write_at_snoc)

lemma store_skip: "store_if False p r = r"
  by (simp add: store_if_def split: sum.splits)

lemma store_all_nil: "outIdx s \<le> length (dst s) \<Longrightarrow> store_all [] s = Inr s"
  by (simp add: store_all_def)

lemma store_all_then:
  "(case store_all ps s of Inl e \<Rightarrow> Inl e
    | Inr s1 \<Rightarrow> store_all qs (s1\<lparr>rd := rd s1 @ r\<rparr>))
   = store_all (ps @ qs) (s\<lparr>rd := rd s @ r\<rparr>)"
  by (auto simp: store_all_def write_at_write_at add.assoc)

lemma store_all_bounds:
  "store_all ps s = Inr s1 \<Longrightarrow> outIdx s1 \<le> length (dst s1)"
  by (auto simp: store_all_def split: if_splits)

subsection \<open>One group\<close>

text \<open>Up to the width \<open>2 ^ 32 - 4\<close> none of \<open>x + 1\<close>, \<open>x + 2\<close>, \<open>x + 3\<close>, \<open>x + 4\<close> wraps
  while \<open>x < width\<close>.\<close>

lemma unat_add_small:
  fixes x w :: uint32_t
  assumes "x < w" "unat w \<le> 2 ^ 32 - 4" "k \<le> 4"
  shows "unat (x + of_nat k) = unat x + k"
proof -
  have "unat x < unat w" using assms(1) by (simp add: word_less_nat_alt)
  then have "unat x + k < 2 ^ 32" using assms by simp
  then show ?thesis
    by (simp add: unat_word_ariths unat_of_nat)
qed

lemma guard_nat:
  fixes x w :: uint32_t
  assumes "x < w" "unat w \<le> 2 ^ 32 - 4"
  shows "x + 1 < w \<longleftrightarrow> unat x + 1 < unat w"
    and "x + 2 < w \<longleftrightarrow> unat x + 2 < unat w"
    and "x + 3 < w \<longleftrightarrow> unat x + 3 < unat w"
    and "unat (x + 4) = unat x + 4"
  using unat_add_small [OF assms, of 1] unat_add_small [OF assms, of 2]
    unat_add_small [OF assms, of 3] unat_add_small [OF assms, of 4]
  by (simp_all add: word_less_nat_alt)

lemma group_body_eq:
  fixes x w :: uint32_t
  assumes "x < w" "unat w \<le> 2 ^ 32 - 4"
  shows "group_body mem src w x line s =
     store_all (take (unat w - unat x) (group_pixels mem (src + line)))
       (s\<lparr>rd := rd s @ group_reads line\<rparr>)"
proof -
  have lt: "unat x < unat w" using assms(1) by (simp add: word_less_nat_alt)
  consider "unat w - unat x = 1" | "unat w - unat x = 2" | "unat w - unat x = 3"
    | "4 \<le> unat w - unat x"
    using lt by linarith
  then show ?thesis
  proof cases
    case 1
    then have "\<not> unat x + 1 < unat w" "\<not> unat x + 2 < unat w" "\<not> unat x + 3 < unat w"
      by linarith+
    then show ?thesis
      using assms 1
      by (simp add: group_body_def Let_def guard_nat store_skip store_first
          group_pixels_def group_reads_def pixel_def)
  next
    case 2
    then have "unat x + 1 < unat w" "\<not> unat x + 2 < unat w" "\<not> unat x + 3 < unat w"
      by linarith+
    then show ?thesis
      using assms 2
      by (simp add: group_body_def Let_def guard_nat store_skip store_first store_next
          group_pixels_def group_reads_def numeral_2_eq_2 pixel_def)
  next
    case 3
    then have "unat x + 1 < unat w" "unat x + 2 < unat w" "\<not> unat x + 3 < unat w"
      by linarith+
    then show ?thesis
      using assms 3
      by (simp add: group_body_def Let_def guard_nat store_skip store_first store_next
          group_pixels_def group_reads_def numeral_3_eq_3 pixel_def)
  next
    case 4
    then have "unat x + 1 < unat w" "unat x + 2 < unat w" "unat x + 3 < unat w"
      by linarith+
    then show ?thesis
      using assms 4
      by (simp add: group_body_def Let_def guard_nat store_skip store_first store_next
          group_pixels_def group_reads_def pixel_def)
  qed
qed

subsection \<open>One row\<close>

lemma row_pixels_0 [simp]: "row_pixels mem a 0 = []"
  by (simp add: row_pixels_def)

lemma row_reads_0 [simp]: "row_reads line 0 = []"
  by (simp add: row_reads_def)

lemma length_row_pixels [simp]: "length (row_pixels mem a n) = n"
  by (simp add: row_pixels_def)

lemma group_pixels_nth:
  "i < 4 \<Longrightarrow> group_pixels mem a ! i = pixel (mem (a + i)) (mem (a + 4)) i"
proof -
  assume "i < 4"
  then consider "i = 0" | "i = 1" | "i = 2" | "i = 3" by linarith
  then show ?thesis
    by cases (simp_all add: group_pixels_def)
qed

lemma row_pixels_step:
  assumes "0 < n"
  shows "row_pixels mem a n = take n (group_pixels mem a) @ row_pixels mem (a + 5) (n - 4)"
proof (rule nth_equalityI)
  show "length (row_pixels mem a n)
      = length (take n (group_pixels mem a) @ row_pixels mem (a + 5) (n - 4))"
    by (simp add: group_pixels_def)
next
  fix i
  assume "i < length (row_pixels mem a n)"
  then have i: "i < n" by simp
  show "row_pixels mem a n ! i
      = (take n (group_pixels mem a) @ row_pixels mem (a + 5) (n - 4)) ! i"
  proof (cases "i < 4")
    case True
    then have "i div 4 = 0" "i mod 4 = i" by simp_all
    moreover have "length (group_pixels mem a) = 4" by (simp add: group_pixels_def)
    ultimately show ?thesis
      using True i by (simp add: nth_append group_pixels_nth row_pixels_def)
  next
    case False
    then have ge: "4 \<le> i" by simp
    then have d: "i div 4 = Suc ((i - 4) div 4)" and m: "(i - 4) mod 4 = i mod 4"
      by (simp_all add: le_div_geq le_mod_geq)
    have len: "length (group_pixels mem a) = 4"
      by (simp add: group_pixels_def)
    have less: "i - 4 < n - 4"
      using i ge by linarith
    have "row_pixels mem (a + 5) (n - 4) ! (i - 4) = row_pixels mem a n ! i"
      using i less by (simp add: row_pixels_def d m add.assoc)
    then show ?thesis
      using i ge by (simp add: nth_append len)
  qed
qed

lemma row_reads_step:
  assumes "0 < n"
  shows "row_reads line n = group_reads line @ row_reads (line + 5) (n - 4)"
proof -
  have "(n + 3) div 4 = Suc ((n - 4 + 3) div 4)"
    using assms by (cases "n < 4") (simp_all add: le_div_geq)
  then show ?thesis
    by (simp add: row_reads_def upt_conv_Cons map_Suc_upt [symmetric] del: upt_Suc
        add: comp_def add.assoc)
qed

lemma row_loop_eq:
  assumes "unat w \<le> 2 ^ 32 - 4" and "outIdx s \<le> length (dst s)"
  shows "row_loop mem src w x line s =
     store_all (row_pixels mem (src + line) (unat w - unat x))
       (s\<lparr>rd := rd s @ row_reads line (unat w - unat x)\<rparr>)"
  using assms
proof (induction mem src w x line s rule: row_loop.induct)
  case (1 mem src w x line s)
  show ?case
  proof (cases "x < w")
    case False
    then have "unat w - unat x = 0"
      by (simp add: word_less_nat_alt)
    with False "1.prems" show ?thesis
      by (subst row_loop.simps) (simp add: store_all_nil)
  next
    case True
    let ?n = "unat w - unat x"
    let ?s0 = "s\<lparr>rd := rd s @ group_reads line\<rparr>"
    let ?ps = "take ?n (group_pixels mem (src + line))"
    have pos: "0 < ?n"
      using True by (simp add: word_less_nat_alt)
    have gb: "group_body mem src w x line s = store_all ?ps ?s0"
      using True "1.prems"(1) by (rule group_body_eq)
    have next_n: "unat w - unat (x + 4) = ?n - 4"
      using guard_nat(4) [OF True "1.prems"(1)] by simp
    have rec: "row_loop mem src w (x + 4) (line + 5) s1 =
        store_all (row_pixels mem (src + (line + 5)) (?n - 4))
          (s1\<lparr>rd := rd s1 @ row_reads (line + 5) (?n - 4)\<rparr>)"
      if "store_all ?ps ?s0 = Inr s1" for s1
      using "1.IH" [OF True, of s1] that gb "1.prems"(1) store_all_bounds [OF that] next_n
      by simp
    have "row_loop mem src w x line s =
        (case store_all ?ps ?s0 of Inl e \<Rightarrow> Inl e
         | Inr s1 \<Rightarrow> store_all (row_pixels mem (src + (line + 5)) (?n - 4))
                       (s1\<lparr>rd := rd s1 @ row_reads (line + 5) (?n - 4)\<rparr>))"
      using True gb rec
      by (subst row_loop.simps) (simp split: sum.splits)
    also have "\<dots> = store_all (?ps @ row_pixels mem (src + (line + 5)) (?n - 4))
        (?s0\<lparr>rd := rd ?s0 @ row_reads (line + 5) (?n - 4)\<rparr>)"
      by (rule store_all_then)
    also have "\<dots> = store_all (row_pixels mem (src + line) ?n)
        (s\<lparr>rd := rd s @ row_reads line ?n\<rparr>)"
      using row_pixels_step [OF pos, of mem "src + line"] row_reads_step [OF pos, of line]
      by (simp add: add.assoc)
    finally show ?thesis .
  qed
qed

text \<open>A width above \<open>2 ^ 32 - 4\<close> is above every multiple of four that a \<open>uint32_t\<close>
  holds: \<open>x\<close> wraps, the loop never leaves, and the stores run past the end of \<open>dst\<close>.\<close>

lemma row_loop_wrap:
  assumes "2 ^ 32 - 4 < unat w" and "4 dvd unat x"
  shows "row_loop mem src w x line s = Inl WriteOutOfBounds"
  using assms
proof (induction mem src w x line s rule: row_loop.induct)
  case (1 mem src w x line s)
  have xb: "unat x < 2 ^ 32"
    using unsigned_less [of x] by simp
  have "unat x \<le> 2 ^ 32 - 4"
  proof -
    obtain q where q: "unat x = 4 * q" using "1.prems"(2) by (auto simp: dvd_def)
    with xb have "q < 2 ^ 30" by simp
    then have "q \<le> 2 ^ 30 - 1" by simp
    with q show ?thesis by simp
  qed
  with "1.prems"(1) have lt: "x < w"
    by (simp add: word_less_nat_alt)
  have dvd4: "4 dvd unat (x + 4)"
  proof -
    have "unat (x + 4) = (unat x + 4) mod 2 ^ 32"
      by (simp add: unat_word_ariths)
    moreover have "(4::nat) dvd 2 ^ 32" by simp
    ultimately show ?thesis
      using "1.prems"(2) by (simp add: dvd_mod_iff)
  qed
  show ?case
  proof (cases "group_body mem src w x line s")
    case (Inl e)
    with lt show ?thesis
      by (subst row_loop.simps) (cases e, simp)
  next
    case (Inr s1)
    with lt "1.IH" [OF lt Inr "1.prems"(1) dvd4] show ?thesis
      by (subst row_loop.simps) simp
  qed
qed

subsection \<open>All rows\<close>

lemma frame_loop_eq:
  assumes "unat w \<le> 2 ^ 32 - 4" and "outIdx s \<le> length (dst s)"
  shows "frame_loop mem src w h S y s =
     store_all (concat (map (\<lambda>r. row_pixels mem (src + r * S) (unat w)) [unat y..<unat h]))
       (s\<lparr>rd := rd s @ concat (map (\<lambda>r. row_reads (r * S) (unat w)) [unat y..<unat h])\<rparr>)"
  using assms
proof (induction mem src w h S y s rule: frame_loop.induct)
  case (1 mem src w h S y s)
  show ?case
  proof (cases "y < h")
    case False
    then have "unat h \<le> unat y"
      by (simp add: word_less_nat_alt)
    then have "[unat y..<unat h] = []"
      by simp
    with False "1.prems" show ?thesis
      by (subst frame_loop.simps) (simp only: if_False list.map concat.simps append_Nil2,
          simp add: store_all_nil)
  next
    case True
    let ?row = "row_pixels mem (src + unat y * S) (unat w)"
    let ?rds = "row_reads (unat y * S) (unat w)"
    let ?s0 = "s\<lparr>rd := rd s @ ?rds\<rparr>"
    let ?rest = "concat (map (\<lambda>r. row_pixels mem (src + r * S) (unat w)) [unat y + 1..<unat h])"
    let ?rrds = "concat (map (\<lambda>r. row_reads (r * S) (unat w)) [unat y + 1..<unat h])"
    have ylt: "unat y < unat h"
      using True by (simp add: word_less_nat_alt)
    have hb: "unat h < 2 ^ 32"
      using unsigned_less [of h] by simp
    have suc: "unat (y + 1) = unat y + 1"
      using ylt hb by (simp add: unat_word_ariths)
    have rl: "row_loop mem src w 0 (unat y * S) s = store_all ?row ?s0"
      using row_loop_eq [OF "1.prems", of mem src 0 "unat y * S"] by simp
    have rec: "frame_loop mem src w h S (y + 1) s1 =
        store_all ?rest (s1\<lparr>rd := rd s1 @ ?rrds\<rparr>)"
      if "store_all ?row ?s0 = Inr s1" for s1
      using "1.IH" [OF True, of s1] that rl "1.prems"(1) store_all_bounds [OF that] suc
      by simp
    have "frame_loop mem src w h S y s =
        (case store_all ?row ?s0 of Inl e \<Rightarrow> Inl e
         | Inr s1 \<Rightarrow> store_all ?rest (s1\<lparr>rd := rd s1 @ ?rrds\<rparr>))"
      using True rl rec
      by (subst frame_loop.simps) (simp split: sum.splits)
    also have "\<dots> = store_all (?row @ ?rest) (?s0\<lparr>rd := rd ?s0 @ ?rrds\<rparr>)"
      by (rule store_all_then)
    also have "\<dots> = store_all
        (concat (map (\<lambda>r. row_pixels mem (src + r * S) (unat w)) [unat y..<unat h]))
        (s\<lparr>rd := rd s @ concat (map (\<lambda>r. row_reads (r * S) (unat w)) [unat y..<unat h])\<rparr>)"
      using ylt by (simp add: upt_conv_Cons)
    finally show ?thesis .
  qed
qed

lemma frame_loop_wrap:
  assumes "2 ^ 32 - 4 < unat w" and "0 < h"
  shows "frame_loop mem src w h S 0 s = Inl WriteOutOfBounds"
  using assms row_loop_wrap [of w 0 mem src 0 s]
  by (subst frame_loop.simps) simp

subsection \<open>The whole call\<close>

lemma length_concat_uniform:
  "(\<And>x. x \<in> set xs \<Longrightarrow> length (f x) = n) \<Longrightarrow> length (concat (map f xs)) = length xs * n"
  by (induction xs) simp_all

lemma nth_concat_uniform:
  assumes "\<And>x. x \<in> set xs \<Longrightarrow> length (f x) = n" and "j < length xs" and "i < n"
  shows "concat (map f xs) ! (j * n + i) = f (xs ! j) ! i"
  using assms
proof (induction xs arbitrary: j)
  case Nil
  then show ?case by simp
next
  case (Cons x xs)
  show ?case
  proof (cases j)
    case 0
    with Cons.prems show ?thesis by (simp add: nth_append)
  next
    case (Suc k)
    with Cons.prems have "concat (map f xs) ! (k * n + i) = f (xs ! k) ! i"
      by (intro Cons.IH) simp_all
    with Suc Cons.prems show ?thesis
      by (simp add: nth_append add.assoc)
  qed
qed

lemma length_frame_pixels [simp]: "length (frame_pixels mem src S w h) = h * w"
  by (simp add: frame_pixels_def length_concat_uniform)

lemma frame_pixels_nth:
  assumes "y < h" and "i < w"
  shows "frame_pixels mem src S w h ! (y * w + i) =
     pixel (mem (src + y * S + 5 * (i div 4) + i mod 4)) (mem (src + y * S + 5 * (i div 4) + 4))
       (i mod 4)"
proof -
  have "frame_pixels mem src S w h ! (y * w + i) = row_pixels mem (src + [0..<h] ! y * S) w ! i"
    unfolding frame_pixels_def using assms
    by (intro nth_concat_uniform) simp_all
  with assms show ?thesis
    by (simp add: row_pixels_def)
qed

lemma unpack_no_wrap:
  assumes "accepted fb w h dst0" and "unat w \<le> 2 ^ 32 - 4"
  shows "unpackRaw10To16 mem (Some fb) w h dst0 =
     Inr (True, \<lparr>dst = frame_pixels mem (src_of fb) (packedStride w) (unat w) (unat h),
                 outIdx = unat w * unat h,
                 rd = frame_reads (packedStride w) (unat w) (unat h)\<rparr>)"
proof -
  let ?s0 = "\<lparr>dst = dst0, outIdx = 0, rd = []\<rparr>"
  have "frame_loop mem (src_of fb) w h (packedStride w) 0 ?s0 =
      store_all (frame_pixels mem (src_of fb) (packedStride w) (unat w) (unat h))
        (?s0\<lparr>rd := rd ?s0 @ frame_reads (packedStride w) (unat w) (unat h)\<rparr>)"
    using frame_loop_eq [OF assms(2), of ?s0 mem "src_of fb" h "packedStride w" 0]
    by (simp add: frame_pixels_def frame_reads_def)
  also have "\<dots> = Inr \<lparr>dst = frame_pixels mem (src_of fb) (packedStride w) (unat w) (unat h),
                 outIdx = unat w * unat h,
                 rd = frame_reads (packedStride w) (unat w) (unat h)\<rparr>"
    using assms(1) by (simp add: store_all_def accepted_def write_at_all mult.commute)
  finally show ?thesis
    using assms(1)
    by (simp add: unpackRaw10To16_def accepted_def Let_def src_of_def)
qed

lemma unpack_wrap:
  assumes "accepted fb w h dst0" and "2 ^ 32 - 4 < unat w" and "0 < h"
  shows "unpackRaw10To16 mem (Some fb) w h dst0 = Inl WriteOutOfBounds"
  using assms frame_loop_wrap [OF assms(2,3)]
  by (simp add: unpackRaw10To16_def accepted_def Let_def)

lemma unpack_rejects:
  assumes "\<not> accepted fb w h dst0"
  shows "unpackRaw10To16 mem (Some fb) w h dst0 = Inr (False, \<lparr>dst = dst0, outIdx = 0, rd = []\<rparr>)"
  using assms
  by (auto simp: unpackRaw10To16_def accepted_def Let_def)

lemma unpack_True:
  assumes "unpackRaw10To16 mem (Some fb) w h dst0 = Inr (True, s)"
  shows "accepted fb w h dst0
     \<and> s = \<lparr>dst = frame_pixels mem (src_of fb) (packedStride w) (unat w) (unat h),
            outIdx = unat w * unat h,
            rd = frame_reads (packedStride w) (unat w) (unat h)\<rparr>"
proof -
  have acc: "accepted fb w h dst0"
    using assms unpack_rejects [of fb w h dst0 mem] by auto
  show ?thesis
  proof (cases "unat w \<le> 2 ^ 32 - 4")
    case True
    with acc assms show ?thesis
      by (simp add: unpack_no_wrap)
  next
    case False
    then have big: "2 ^ 32 - 4 < unat w" by simp
    have "h = 0"
    proof (rule ccontr)
      assume "h \<noteq> 0"
      then have "0 < h" by (simp add: word_greater_zero_iff)
      from unpack_wrap [OF acc big this, of mem] assms show False by simp
    qed
    with acc assms show ?thesis
      by (subst (asm) unpackRaw10To16_def)
         (auto simp: accepted_def Let_def frame_loop.simps frame_pixels_def frame_reads_def)
  qed
qed

section \<open>Properties of the unpacker\<close>

subsection \<open>Ten-bit samples\<close>

lemma three_mask: "(3 :: 'a::len word) = mask 2"
  by (simp add: mask_eq_exp_minus_1)

lemma bit_pixel:
  "bit (pixel b b4 k) n \<longleftrightarrow> (n < 8 \<and> bit b n) \<or> (8 \<le> n \<and> n < 10 \<and> bit b4 (2 * k + (n - 8)))"
  unfolding pixel_def three_mask
  by (auto simp: bit_simps dest: bit_imp_le_length)

lemma pixel_upper_bits: "drop_bit 10 (pixel b b4 k) = 0"
  by (rule bit_word_eqI) (auto simp: bit_simps bit_pixel)

lemma pixel_bound: "unat (pixel b b4 k) \<le> 1023"
proof -
  have "take_bit 10 (pixel b b4 k) = pixel b b4 k"
    by (rule bit_word_eqI) (auto simp: bit_simps bit_pixel)
  moreover have "unat (take_bit 10 (pixel b b4 k)) < 2 ^ 10"
    using take_bit_nat_less_exp [of 10 "unat (pixel b b4 k)"]
    by (simp add: unsigned_take_bit_eq)
  ultimately show ?thesis by simp
qed

lemmas unpack_eval =
  unpackRaw10To16_def packedStride_def frame_loop.simps row_loop.simps
  group_body_def store_if_def store_def Let_def

lemma frame_pixels_bound:
  assumes "v \<in> set (frame_pixels mem src S w h)"
  shows "drop_bit 10 v = 0 \<and> unat v \<le> 1023"
  using assms
  by (auto simp: frame_pixels_def row_pixels_def pixel_upper_bits pixel_bound)

text \<open>
  What a returning call has decoded. Let a call of \<open>unpackRaw10To16\<close> on a frame buffer
  that is not null return \<open>true\<close>. Then the pixels \<open>4g .. 4g + 3\<close> of every complete
  group \<open>g\<close> of every row \<open>y\<close> are \<open>b0 | ((b4 & 0x03) << 8)\<close>,
  \<open>b1 | (((b4 >> 2) & 0x03) << 8)\<close>, \<open>b2 | (((b4 >> 4) & 0x03) << 8)\<close> and
  \<open>b3 | (((b4 >> 6) & 0x03) << 8)\<close> of the five bytes \<open>b0 .. b4\<close> that the code reads for
  the group, at \<open>src + y * packedStride + 5 * g\<close> with the stride as the code computes it; the
  output has \<open>width * height\<close> samples, and the upper six bits of every one are zero, so
  that its value is at most 1023. Which inputs make the call return, and where the code's
  stride is the packed row length, is settled further down.
\<close>

lemma returned_groups_decoded:
  assumes "unpackRaw10To16 mem (Some fb) w h dst0 = Inr (True, s)"
    and "y < unat h" and "4 * g + 3 < unat w"
    and "a = cookie fb + unat (offset (planes fb ! 0)) + y * packedStride w + 5 * g"
  shows "dst s ! (y * unat w + 4 * g + 0)
           = ucast (mem (a + 0)) OR push_bit 8 (ucast (mem (a + 4) AND 0x03))
       \<and> dst s ! (y * unat w + 4 * g + 1)
           = ucast (mem (a + 1)) OR push_bit 8 (ucast (drop_bit 2 (mem (a + 4)) AND 0x03))
       \<and> dst s ! (y * unat w + 4 * g + 2)
           = ucast (mem (a + 2)) OR push_bit 8 (ucast (drop_bit 4 (mem (a + 4)) AND 0x03))
       \<and> dst s ! (y * unat w + 4 * g + 3)
           = ucast (mem (a + 3)) OR push_bit 8 (ucast (drop_bit 6 (mem (a + 4)) AND 0x03))
       \<and> length (dst s) = unat w * unat h
       \<and> (\<forall>v \<in> set (dst s). drop_bit 10 v = 0 \<and> unat v \<le> 1023)"
proof -
  let ?S = "packedStride w"
  from unpack_True [OF assms(1)]
  have d: "dst s = frame_pixels mem (src_of fb) ?S (unat w) (unat h)"
    by simp
  have nth: "dst s ! (y * unat w + (4 * g + k))
      = pixel (mem (a + k)) (mem (a + 4)) k" if "k < 4" for k
  proof -
    have "4 * g + k < unat w" using that assms(3) by simp
    moreover have "(4 * g + k) div 4 = g" "(4 * g + k) mod 4 = k"
      using that by simp_all
    ultimately show ?thesis
      using frame_pixels_nth [OF assms(2), of "4 * g + k" "unat w" mem "src_of fb" ?S]
      by (simp add: d assms(4) src_of_def add.assoc)
  qed
  have "dst s ! (y * unat w + 4 * g + 0) = pixel (mem (a + 0)) (mem (a + 4)) 0"
    and "dst s ! (y * unat w + 4 * g + 1) = pixel (mem (a + 1)) (mem (a + 4)) 1"
    and "dst s ! (y * unat w + 4 * g + 2) = pixel (mem (a + 2)) (mem (a + 4)) 2"
    and "dst s ! (y * unat w + 4 * g + 3) = pixel (mem (a + 3)) (mem (a + 4)) 3"
    using nth [of 0] nth [of 1] nth [of 2] nth [of 3] by (simp_all add: add.assoc)
  moreover have "length (dst s) = unat w * unat h"
    by (simp add: d mult.commute)
  moreover have "\<forall>v \<in> set (dst s). drop_bit 10 v = 0 \<and> unat v \<le> 1023"
    using frame_pixels_bound by (simp add: d)
  ultimately show ?thesis
    by (simp add: pixel_def)
qed

lemma returned_groups_decoded_example:
  "unpackRaw10To16
     (\<lambda>a. if 4096 \<le> a \<and> a < 4106
          then [0x01, 0x02, 0x03, 0x04, 0xE4, 0xFF, 0x00, 0x80, 0x7F, 0x1B] ! (a - 4096) else 0)
     (Some \<lparr>planes = [\<lparr>offset = 0, length_p = 10\<rparr>], cookie = 4096\<rparr>) 4 2
     [0, 0, 0, 0, 0, 0, 0, 0]
   = Inr (True, \<lparr>dst = [0x001, 0x102, 0x203, 0x304, 0x3FF, 0x200, 0x180, 0x07F], outIdx = 8,
       rd = [0, 1, 2, 3, 4, 5, 6, 7, 8, 9]\<rparr>)
   \<and> (1 :: nat) < unat (2 :: uint32_t) \<and> 4 * 0 + 3 < unat (4 :: uint32_t)
   \<and> [0x001, 0x102, 0x203, 0x304, 0x3FF, 0x200, 0x180, 0x07F :: uint16_t] ! (1 * 4 + 4 * 0 + 2)
       = ucast (0x80 :: uint8_t) OR push_bit 8 (ucast (drop_bit 4 (0x1B :: uint8_t) AND 0x03))
   \<and> drop_bit 10 (0x3FF :: uint16_t) = 0"
proof -
  let ?mem = "\<lambda>a. if 4096 \<le> a \<and> a < 4106
          then [0x01, 0x02, 0x03, 0x04, 0xE4, 0xFF, 0x00, 0x80, 0x7F, 0x1B :: uint8_t] ! (a - 4096)
          else 0"
  let ?fb = "\<lparr>planes = [\<lparr>offset = 0, length_p = 10\<rparr>], cookie = 4096\<rparr>"
  let ?s = "\<lparr>dst = [0x001, 0x102, 0x203, 0x304, 0x3FF, 0x200, 0x180, 0x07F], outIdx = 8,
       rd = [0, 1, 2, 3, 4, 5, 6, 7, 8, 9]\<rparr>"
  have run: "unpackRaw10To16 ?mem (Some ?fb) 4 2 [0, 0, 0, 0, 0, 0, 0, 0] = Inr (True, ?s)"
    by (simp add: unpack_eval)
  have y: "(1 :: nat) < unat (2 :: uint32_t)" and g: "4 * 0 + 3 < unat (4 :: uint32_t)"
    by simp_all
  have a: "(4101 :: nat) = cookie ?fb + unat (offset (planes ?fb ! 0))
      + 1 * packedStride (4 :: uint32_t) + 5 * 0"
    by (simp add: packedStride_def)
  note th = returned_groups_decoded [OF run y g a]
  have p2: "dst ?s ! (1 * unat (4 :: uint32_t) + 4 * 0 + 2)
          = ucast (?mem (4101 + 2)) OR push_bit 8 (ucast (drop_bit 4 (?mem (4101 + 4)) AND 0x03))"
    using th by (elim conjE)
  have "\<forall>v \<in> set (dst ?s). drop_bit 10 v = 0 \<and> unat v \<le> 1023"
    using th by (elim conjE)
  then have hi: "drop_bit 10 (0x3FF :: uint16_t) = 0"
    by simp
  have v: "[0x001, 0x102, 0x203, 0x304, 0x3FF, 0x200, 0x180, 0x07F :: uint16_t] ! (1 * 4 + 4 * 0 + 2)
       = ucast (0x80 :: uint8_t) OR push_bit 8 (ucast (drop_bit 4 (0x1B :: uint8_t) AND 0x03))"
    using p2 by simp
  show ?thesis
    using run y g v hi by (intro conjI)
qed

subsection \<open>Widths that are not a multiple of four\<close>

lemma row_pixels_groups:
  "row_pixels mem a n =
     concat (map (\<lambda>g. group_pixels mem (a + 5 * g)) [0..<n div 4])
       @ take (n mod 4) (group_pixels mem (a + 5 * (n div 4)))"
proof (induction "n div 4" arbitrary: n a)
  case 0
  then have small: "n < 4" by (simp add: div_eq_0_iff)
  show ?case
  proof (cases "n = 0")
    case True
    then show ?thesis by simp
  next
    case False
    with small row_pixels_step [of n mem a] show ?thesis by simp
  qed
next
  case (Suc k)
  then have ge: "4 \<le> n" and k: "k = (n - 4) div 4"
    by (auto simp: le_div_geq div_eq_0_iff not_less [symmetric] split: if_splits)
  have len4: "length (group_pixels mem a) = 4"
    by (simp add: group_pixels_def)
  have "row_pixels mem a n = group_pixels mem a @ row_pixels mem (a + 5) (n - 4)"
    using ge row_pixels_step [of n mem a] len4 by simp
  also have "row_pixels mem (a + 5) (n - 4) =
      concat (map (\<lambda>g. group_pixels mem (a + 5 + 5 * g)) [0..<k])
        @ take ((n - 4) mod 4) (group_pixels mem (a + 5 + 5 * k))"
    using Suc.hyps(1) [OF k, of "a + 5"] k by simp
  finally show ?case
    using ge Suc.hyps(2) [symmetric]
    by (simp add: upt_conv_Cons map_Suc_upt [symmetric] comp_def add.assoc le_mod_geq
        del: upt_Suc)
qed

text \<open>
  Let the width not be a multiple of four and let the call return \<open>true\<close>. Then exactly
  \<open>width * height\<close> stores were made (every store advances \<open>outIdx\<close> by one), and the
  output is, row after row, the four pixels of each of the \<open>width div 4\<close> complete groups
  of the row followed by the leading \<open>width mod 4\<close> pixels, one to three, of the final
  group: \<open>width\<close> samples a row, and no pixel of the final group beyond them.
\<close>

lemma returned_partial_group:
  assumes "unat w mod 4 \<noteq> 0"
    and "unpackRaw10To16 mem (Some fb) w h dst0 = Inr (True, s)"
    and "src = cookie fb + unat (offset (planes fb ! 0))"
  shows "outIdx s = unat w * unat h
       \<and> length (dst s) = unat w * unat h
       \<and> dst s = concat (map (\<lambda>y.
             concat (map (\<lambda>g. group_pixels mem (src + y * packedStride w + 5 * g))
                       [0..<unat w div 4])
             @ take (unat w mod 4)
                 (group_pixels mem (src + y * packedStride w + 5 * (unat w div 4))))
           [0..<unat h])
       \<and> unat w mod 4 \<in> {1, 2, 3}"
proof -
  from unpack_True [OF assms(2)]
  have s: "s = \<lparr>dst = frame_pixels mem (src_of fb) (packedStride w) (unat w) (unat h),
            outIdx = unat w * unat h,
            rd = frame_reads (packedStride w) (unat w) (unat h)\<rparr>"
    by simp
  have "unat w mod 4 < 4" by simp
  with assms(1) have r: "unat w mod 4 \<in> {1, 2, 3}"
    by (simp; linarith)
  have idx: "outIdx s = unat w * unat h"
    by (simp add: s)
  have len: "length (dst s) = unat w * unat h"
    by (simp add: s mult.commute)
  have rows: "dst s = concat (map (\<lambda>y.
             concat (map (\<lambda>g. group_pixels mem (src + y * packedStride w + 5 * g))
                       [0..<unat w div 4])
             @ take (unat w mod 4)
                 (group_pixels mem (src + y * packedStride w + 5 * (unat w div 4))))
           [0..<unat h])"
    by (simp add: s frame_pixels_def row_pixels_groups assms(3) src_of_def)
  show ?thesis
    using idx len rows r by (intro conjI)
qed

lemma returned_partial_group_example:
  "unat (6 :: uint32_t) mod 4 \<noteq> 0
   \<and> unpackRaw10To16
     (\<lambda>a. if 4096 \<le> a \<and> a < 4106
          then [0x01, 0x02, 0x03, 0x04, 0xE4, 0xFF, 0x00, 0x80, 0x7F, 0x1B] ! (a - 4096) else 0)
     (Some \<lparr>planes = [\<lparr>offset = 0, length_p = 10\<rparr>], cookie = 4096\<rparr>) 6 1
     [0, 0, 0, 0, 0, 0]
   = Inr (True, \<lparr>dst = [0x001, 0x102, 0x203, 0x304, 0x3FF, 0x200], outIdx = 6,
       rd = [0, 1, 2, 3, 4, 5, 6, 7, 8, 9]\<rparr>)
   \<and> outIdx \<lparr>dst = [0x001, 0x102, 0x203, 0x304, 0x3FF, 0x200], outIdx = 6,
       rd = [0, 1, 2, 3, 4, 5, 6, 7, 8, 9]\<rparr> = unat (6 :: uint32_t) * unat (1 :: uint32_t)"
proof -
  let ?mem = "\<lambda>a. if 4096 \<le> a \<and> a < 4106
          then [0x01, 0x02, 0x03, 0x04, 0xE4, 0xFF, 0x00, 0x80, 0x7F, 0x1B :: uint8_t] ! (a - 4096)
          else 0"
  let ?fb = "\<lparr>planes = [\<lparr>offset = 0, length_p = 10\<rparr>], cookie = 4096\<rparr>"
  let ?s = "\<lparr>dst = [0x001, 0x102, 0x203, 0x304, 0x3FF, 0x200], outIdx = 6,
       rd = [0, 1, 2, 3, 4, 5, 6, 7, 8, 9]\<rparr>"
  have w: "unat (6 :: uint32_t) mod 4 \<noteq> 0"
    by simp
  have run: "unpackRaw10To16 ?mem (Some ?fb) 6 1 [0, 0, 0, 0, 0, 0] = Inr (True, ?s)"
    by (simp add: unpack_eval)
  have "outIdx ?s = unat (6 :: uint32_t) * unat (1 :: uint32_t)"
    using returned_partial_group [OF w run refl] by (elim conjE)
  with w run show ?thesis
    by (intro conjI)
qed

subsection \<open>The reads of a partial group\<close>

text \<open>
  Claim C2 fails on the code. For \<open>width = 6\<close>, \<open>height = 1\<close> the stride is 8 bytes, and a
  plane of exactly 8 bytes passes the length test. The final group of the row starts at
  index 5 and is read at the indices 5 to 9: the indices 8 and 9 are at or beyond
  \<open>stride * height = 8\<close>, and the high bits of the samples 4 and 5 come from index 9,
  outside the plane (here \<open>0xFF\<close>), not from a byte of the row.
\<close>

theorem unpack_reads_past_stride:
  "unpackRaw10To16
     (\<lambda>a. if 4096 \<le> a \<and> a < 4104
          then [0x01, 0x02, 0x03, 0x04, 0xE4, 0x05, 0x06, 0x00] ! (a - 4096) else 0xFF)
     (Some \<lparr>planes = [\<lparr>offset = 0, length_p = 8\<rparr>], cookie = 4096\<rparr>) 6 1
     [0, 0, 0, 0, 0, 0]
   = Inr (True, \<lparr>dst = [0x001, 0x102, 0x203, 0x304, 0x305, 0x306], outIdx = 6,
       rd = [0, 1, 2, 3, 4, 5, 6, 7, 8, 9]\<rparr>)
   \<and> packedStride 6 * unat (1 :: uint32_t) = 8
   \<and> \<not> (9 :: nat) < packedStride 6 * unat (1 :: uint32_t)"
  by (simp add: unpack_eval)

text \<open>The stride in natural numbers: never above \<open>ceil(width * 10 / 8)\<close>, and equal to it
  when \<open>width * 10 + 7\<close> does not wrap.\<close>

lemma packedStride_le:
  "packedStride w \<le> (unat w * 10 + 7) div 8"
proof -
  have "unat (w * 10 + 7) = (unat w * 10 + 7) mod 2 ^ 32"
    by (simp add: unat_word_ariths mod_simps)
  then have "unat (w * 10 + 7) \<le> unat w * 10 + 7"
    by simp
  then show ?thesis
    by (simp add: packedStride_def unat_div div_le_mono)
qed

lemma packedStride_exact:
  assumes "unat w * 10 + 7 < 2 ^ 32"
  shows "packedStride w = (unat w * 10 + 7) div 8"
proof -
  have "unat (w * 10 + 7) = (unat w * 10 + 7) mod 2 ^ 32"
    by (simp add: unat_word_ariths mod_simps)
  with assms have "unat (w * 10 + 7) = unat w * 10 + 7"
    by simp
  then show ?thesis
    by (simp add: packedStride_def unat_div)
qed

lemma row_reads_last:
  assumes "0 < n"
  shows "line + 5 * ((n - 1) div 4) + 4 \<in> set (row_reads line n)"
proof -
  have "(n - 1) div 4 < (n + 3) div 4"
    using assms by (simp add: div_less_iff_less_mult; linarith)
  then have "(n - 1) div 4 \<in> set [0..<(n + 3) div 4]"
    by simp
  then show ?thesis
    unfolding row_reads_def set_concat set_map
    by (intro UN_I [where a = "group_reads (line + 5 * ((n - 1) div 4))"])
       (auto simp: group_reads_def)
qed

text \<open>The same holds at every width that is not a multiple of four: the fifth byte of
  the final group of the last row lies at or beyond \<open>packedStride * height\<close>.\<close>

lemma partial_group_reads_outside:
  assumes "unat w mod 4 \<noteq> 0" and "0 < unat h"
    and "unpackRaw10To16 mem (Some fb) w h dst0 = Inr (True, s)"
  shows "\<exists>i \<in> set (rd s). packedStride w * unat h \<le> i"
proof -
  let ?S = "packedStride w" and ?n = "unat w"
  from unpack_True [OF assms(3)]
  have rd: "rd s = frame_reads ?S ?n (unat h)"
    by simp
  have pos: "0 < ?n" using assms(1) by (cases "?n = 0") simp_all
  let ?i = "(unat h - 1) * ?S + 5 * ((?n - 1) div 4) + 4"
  have "?i \<in> set (row_reads ((unat h - 1) * ?S) ?n)"
    using row_reads_last [OF pos] .
  moreover have "unat h - 1 \<in> set [0..<unat h]"
    using assms(2) by simp
  ultimately have mem: "?i \<in> set (rd s)"
    unfolding rd frame_reads_def set_concat set_map by blast
  define q r where "q = ?n div 4" and "r = ?n mod 4"
  have n: "?n = 4 * q + r" and r: "0 < r" "r < 4"
    using assms(1) by (simp_all add: q_def r_def)
  have "(?n - 1) div 4 = q"
    using r by (simp add: n)
  moreover have "(?n * 10 + 7) div 8 \<le> 5 * q + 4"
  proof -
    have "?n * 10 + 7 = (10 * r + 7) + 5 * q * 8"
      by (simp add: n)
    then have "(?n * 10 + 7) div 8 = (10 * r + 7) div 8 + 5 * q"
      by simp
    moreover have "(10 * r + 7) div 8 \<le> 4"
      using r by simp
    ultimately show ?thesis by simp
  qed
  ultimately have "?S \<le> 5 * ((?n - 1) div 4) + 4"
    using packedStride_le [of w] by simp
  then have "?S * unat h \<le> ?i"
  proof -
    assume le: "?S \<le> 5 * ((?n - 1) div 4) + 4"
    have "?S * unat h = (unat h - 1) * ?S + ?S"
      using assms(2) by (cases "unat h") simp_all
    with le show ?thesis by simp
  qed
  with mem show ?thesis by blast
qed

subsection \<open>When the call fails\<close>

text \<open>
  Claim C7 fails on the code as stated: a frame buffer whose cookie is null is rejected
  although the output has \<open>width * height\<close> samples, there is one plane, and the plane has
  \<open>stride * height\<close> bytes.
\<close>

theorem unpack_null_cookie_fails:
  "unpackRaw10To16 (\<lambda>a. 0) (Some \<lparr>planes = [\<lparr>offset = 0, length_p = 5\<rparr>], cookie = 0\<rparr>) 4 1
       [0, 0, 0, 0]
     = Inr (False, \<lparr>dst = [0, 0, 0, 0], outIdx = 0, rd = []\<rparr>)
   \<and> length [0, 0, 0, 0 :: uint16_t] = unat (4 :: uint32_t) * unat (1 :: uint32_t)
   \<and> length (planes \<lparr>planes = [\<lparr>offset = 0, length_p = 5\<rparr>], cookie = 0\<rparr>) = 1
   \<and> (unat (4 :: uint32_t) * 10 + 7) div 8 * unat (1 :: uint32_t)
       \<le> unat (length_p (planes \<lparr>planes = [\<lparr>offset = 0, length_p = 5\<rparr>], cookie = 0\<rparr> ! 0))"
  by (simp add: unpack_eval)

text \<open>
  Claim C7, amended. Let the width be one whose stride the 32-bit arithmetic computes
  without wrapping, \<open>width * 10 + 7 < 2 ^ 32\<close>, so that the stride is
  \<open>ceil(width * 10 / 8)\<close>. For every frame buffer that is not null, \<open>unpackRaw10To16\<close> returns
  \<open>false\<close> if and only if the output capacity differs from \<open>width * height\<close>, or the number
  of planes is not exactly one, or the cookie (the address of the mapping) is null, or the
  plane has fewer than \<open>stride * height\<close> bytes; and it returns \<open>true\<close> if and only if none
  of the four holds.
\<close>

theorem unpack_failure_iff:
  assumes "unat w * 10 + 7 < 2 ^ 32"
  shows "((\<exists>s. unpackRaw10To16 mem (Some fb) w h dst0 = Inr (False, s)) \<longleftrightarrow>
            length dst0 \<noteq> unat w * unat h
          \<or> length (planes fb) \<noteq> 1
          \<or> cookie fb = 0
          \<or> unat (length_p (planes fb ! 0)) < (unat w * 10 + 7) div 8 * unat h)
       \<and> ((\<exists>s. unpackRaw10To16 mem (Some fb) w h dst0 = Inr (True, s)) \<longleftrightarrow>
            length dst0 = unat w * unat h
          \<and> length (planes fb) = 1
          \<and> cookie fb \<noteq> 0
          \<and> (unat w * 10 + 7) div 8 * unat h \<le> unat (length_p (planes fb ! 0)))"
proof -
  have S: "packedStride w = (unat w * 10 + 7) div 8"
    using assms by (rule packedStride_exact)
  have small: "unat w \<le> 2 ^ 32 - 4"
    using assms by simp
  show ?thesis
  proof (cases "accepted fb w h dst0")
    case True
    with unpack_no_wrap [OF True small, of mem] show ?thesis
      by (simp add: accepted_def S)
  next
    case False
    with unpack_rejects [OF False, of mem] show ?thesis
      by (simp add: accepted_def S not_le)
  qed
qed

theorem unpack_failure_iff_witness:
  "unat (4 :: uint32_t) * 10 + 7 < (2 :: nat) ^ 32
   \<and> (\<exists>s. unpackRaw10To16 (\<lambda>a. 0)
          (Some \<lparr>planes = [\<lparr>offset = 0, length_p = 4\<rparr>], cookie = 4096\<rparr>) 4 1 [0, 0, 0, 0]
        = Inr (False, s))
   \<and> unat (length_p (planes \<lparr>planes = [\<lparr>offset = 0, length_p = 4\<rparr>], cookie = 4096\<rparr> ! 0))
       < (unat (4 :: uint32_t) * 10 + 7) div 8 * unat (1 :: uint32_t)
   \<and> (\<exists>s. unpackRaw10To16 (\<lambda>a. 0)
          (Some \<lparr>planes = [\<lparr>offset = 0, length_p = 5\<rparr>], cookie = 4096\<rparr>) 4 1 [0, 0, 0, 0]
        = Inr (True, s))"
proof -
  have w: "unat (4 :: uint32_t) * 10 + 7 < (2 :: nat) ^ 32"
    by simp
  have short: "unat (length_p (planes \<lparr>planes = [\<lparr>offset = 0, length_p = 4\<rparr>], cookie = 4096\<rparr> ! 0))
       < (unat (4 :: uint32_t) * 10 + 7) div 8 * unat (1 :: uint32_t)"
    by simp
  have "\<exists>s. unpackRaw10To16 (\<lambda>a. 0)
          (Some \<lparr>planes = [\<lparr>offset = 0, length_p = 4\<rparr>], cookie = 4096\<rparr>) 4 1 [0, 0, 0, 0]
        = Inr (False, s)"
    using unpack_failure_iff [OF w, of "\<lambda>a. 0"
        "\<lparr>planes = [\<lparr>offset = 0, length_p = 4\<rparr>], cookie = 4096\<rparr>" 1 "[0, 0, 0, 0]"]
    by simp
  moreover have "\<exists>s. unpackRaw10To16 (\<lambda>a. 0)
          (Some \<lparr>planes = [\<lparr>offset = 0, length_p = 5\<rparr>], cookie = 4096\<rparr>) 4 1 [0, 0, 0, 0]
        = Inr (True, s)"
    using unpack_failure_iff [OF w, of "\<lambda>a. 0"
        "\<lparr>planes = [\<lparr>offset = 0, length_p = 5\<rparr>], cookie = 4096\<rparr>" 1 "[0, 0, 0, 0]"]
    by simp
  ultimately show ?thesis
    using w short by (intro conjI)
qed

subsection \<open>Packing and unpacking\<close>

lemma length_pack10: "length (pack10 ps) = 5 * (length ps div 4)"
  by (induction ps rule: pack10.induct) simp_all

lemma bit_two_high:
  fixes p :: uint16_t
  shows "bit (push_bit j (ucast (drop_bit 8 p) AND (0x03 :: uint8_t))) n \<longleftrightarrow>
     j \<le> n \<and> n < j + 2 \<and> n < 8 \<and> bit p (8 + (n - j))"
  unfolding three_mask
  by (auto simp: bit_simps dest: bit_imp_le_length)

lemma bit_high_bits:
  "bit (high_bits p0 p1 p2 p3) n \<longleftrightarrow>
     (n < 2 \<and> bit p0 (8 + n)) \<or> (2 \<le> n \<and> n < 4 \<and> bit p1 (8 + (n - 2)))
     \<or> (4 \<le> n \<and> n < 6 \<and> bit p2 (8 + (n - 4))) \<or> (6 \<le> n \<and> n < 8 \<and> bit p3 (8 + (n - 6)))"
proof -
  have "high_bits p0 p1 p2 p3 =
     push_bit 0 (ucast (drop_bit 8 p0) AND 0x03)
     OR push_bit 2 (ucast (drop_bit 8 p1) AND 0x03)
     OR push_bit 4 (ucast (drop_bit 8 p2) AND 0x03)
     OR push_bit 6 (ucast (drop_bit 8 p3) AND 0x03)"
    by (simp add: high_bits_def)
  then show ?thesis
    by (simp only: bit_or_iff bit_two_high) auto
qed

lemma ten_bits:
  fixes p :: uint16_t
  assumes "unat p \<le> 1023" and "bit p n"
  shows "n < 10"
proof -
  have "unat (take_bit 10 p) = unat p"
    using assms(1) by (simp add: unsigned_take_bit_eq take_bit_nat_eq_self)
  then have "take_bit 10 p = p"
    by (simp add: word_unat_eq_iff)
  then have "bit (take_bit 10 p) n"
    using assms(2) by simp
  then show ?thesis
    by (simp add: bit_take_bit_iff)
qed

lemma pixel_of_low_and_high:
  assumes "unat p \<le> 1023" and hb: "\<And>m. m < 2 \<Longrightarrow> bit hb (2 * k + m) = bit p (8 + m)"
  shows "pixel (ucast p) hb k = p"
proof (rule bit_word_eqI)
  fix n :: nat
  consider "n < 8" | "n = 8" | "n = 9" | "10 \<le> n" by linarith
  then show "bit (pixel (ucast p) hb k) n = bit p n"
  proof cases
    case 1
    then show ?thesis by (simp add: bit_pixel bit_simps)
  next
    case 2
    with hb [of 0] show ?thesis by (simp add: bit_pixel)
  next
    case 3
    with hb [of 1] show ?thesis by (simp add: bit_pixel)
  next
    case 4
    with ten_bits [OF assms(1), of n] show ?thesis by (auto simp: bit_pixel)
  qed
qed

lemma pixel_pack:
  assumes "unat p0 \<le> 1023" "unat p1 \<le> 1023" "unat p2 \<le> 1023" "unat p3 \<le> 1023"
  shows "pixel (ucast p0) (high_bits p0 p1 p2 p3) 0 = p0"
    and "pixel (ucast p1) (high_bits p0 p1 p2 p3) 1 = p1"
    and "pixel (ucast p2) (high_bits p0 p1 p2 p3) 2 = p2"
    and "pixel (ucast p3) (high_bits p0 p1 p2 p3) 3 = p3"
proof -
  show "pixel (ucast p0) (high_bits p0 p1 p2 p3) 0 = p0"
    using assms(1) by (rule pixel_of_low_and_high) (simp add: bit_high_bits)
  show "pixel (ucast p1) (high_bits p0 p1 p2 p3) 1 = p1"
    using assms(2) by (rule pixel_of_low_and_high) (simp add: bit_high_bits)
  show "pixel (ucast p2) (high_bits p0 p1 p2 p3) 2 = p2"
    using assms(3) by (rule pixel_of_low_and_high) (simp add: bit_high_bits)
  show "pixel (ucast p3) (high_bits p0 p1 p2 p3) 3 = p3"
    using assms(4) by (rule pixel_of_low_and_high) (simp add: bit_high_bits)
qed


lemma pack10_nth:
  assumes "4 * g + 3 < length ps"
  shows "pack10 ps ! (5 * g + 0) = ucast (ps ! (4 * g + 0))
       \<and> pack10 ps ! (5 * g + 1) = ucast (ps ! (4 * g + 1))
       \<and> pack10 ps ! (5 * g + 2) = ucast (ps ! (4 * g + 2))
       \<and> pack10 ps ! (5 * g + 3) = ucast (ps ! (4 * g + 3))
       \<and> pack10 ps ! (5 * g + 4)
           = high_bits (ps ! (4 * g + 0)) (ps ! (4 * g + 1)) (ps ! (4 * g + 2)) (ps ! (4 * g + 3))"
  using assms
proof (induction ps arbitrary: g rule: pack10.induct)
  case (1 p0 p1 p2 p3 ps)
  show ?case
  proof (cases g)
    case 0
    then show ?thesis by simp
  next
    case (Suc g')
    with "1.prems" have "4 * g' + 3 < length ps" by simp
    from "1.IH" [OF this] Suc show ?thesis
      by (simp add: nth_append numeral_eq_Suc)
  qed
qed simp_all

lemma pixel_from_pack:
  assumes "4 * g + 3 < length ps" and "\<forall>v \<in> set ps. unat v \<le> 1023" and "k < 4"
  shows "pixel (pack10 ps ! (5 * g + k)) (pack10 ps ! (5 * g + 4)) k = ps ! (4 * g + k)"
proof -
  have b: "unat (ps ! (4 * g + j)) \<le> 1023" if "j < 4" for j
    using assms(1,2) that by simp
  note n = pack10_nth [OF assms(1)]
  consider "k = 0" | "k = 1" | "k = 2" | "k = 3"
    using assms(3) by linarith
  then show ?thesis
  proof cases
    case 1
    with n pixel_pack(1) [OF b [of 0] b [of 1] b [of 2] b [of 3]] show ?thesis by simp
  next
    case 2
    with n pixel_pack(2) [OF b [of 0] b [of 1] b [of 2] b [of 3]] show ?thesis by simp
  next
    case 3
    with n pixel_pack(3) [OF b [of 0] b [of 1] b [of 2] b [of 3]] show ?thesis by simp
  next
    case 4
    with n pixel_pack(4) [OF b [of 0] b [of 1] b [of 2] b [of 3]] show ?thesis by simp
  qed
qed

lemma frame_pixels_pack:
  assumes w4: "4 dvd w" and len: "length xs = w * h"
    and vals: "\<forall>v \<in> set xs. unat v \<le> 1023"
    and mem: "\<And>j. j < length (pack10 xs) \<Longrightarrow> mem (src + j) = pack10 xs ! j"
  shows "frame_pixels mem src (5 * (w div 4)) w h = xs"
proof (rule nth_equalityI)
  show "length (frame_pixels mem src (5 * (w div 4)) w h) = length xs"
    by (simp add: len mult.commute)
next
  fix j
  assume "j < length (frame_pixels mem src (5 * (w div 4)) w h)"
  then have j: "j < h * w" by simp
  then have wpos: "0 < w" by (cases w) simp_all
  define y i where "y = j div w" and "i = j mod w"
  have y: "y < h" and i: "i < w" and ji: "j = y * w + i"
    using j wpos by (simp_all add: y_def i_def less_mult_imp_div_less)
  define q where "q = w div 4"
  have wq: "w = 4 * q" using w4 by (simp add: q_def)
  define G k where "G = y * q + i div 4" and "k = i mod 4"
  have k: "k < 4" by (simp add: k_def)
  have idx: "4 * G + k = j"
    by (simp add: G_def k_def ji wq algebra_simps)
  have "i div 4 < q" using i wq by simp
  then have "y * q + i div 4 < h * q"
  proof -
    assume a: "i div 4 < q"
    have "y * q + i div 4 < y * q + q" using a by simp
    also have "\<dots> = Suc y * q" by simp
    also have "\<dots> \<le> h * q" using y by (intro mult_le_mono1) simp
    finally show ?thesis .
  qed
  then have Gh: "G < h * q" by (simp add: G_def)
  then have G: "4 * G + 3 < length xs"
    by (simp add: len wq algebra_simps)
  have packed: "5 * G + m < length (pack10 xs)" if "m < 5" for m
    using Gh that by (simp add: length_pack10 len wq algebra_simps)
  have addr: "src + y * (5 * q) + 5 * (i div 4) + m = src + (5 * G + m)" for m
    by (simp add: G_def algebra_simps)
  have "frame_pixels mem src (5 * q) w h ! (y * w + i) =
      pixel (mem (src + (5 * G + k))) (mem (src + (5 * G + 4))) k"
    using frame_pixels_nth [OF y i, of mem src "5 * q"]
    by (simp only: addr k_def)
  also have "\<dots> = pixel (pack10 xs ! (5 * G + k)) (pack10 xs ! (5 * G + 4)) k"
    using mem [OF packed [of k]] mem [OF packed [of 4]] k by simp
  also have "\<dots> = xs ! (4 * G + k)"
    using G vals k by (rule pixel_from_pack)
  finally show "frame_pixels mem src (5 * (w div 4)) w h ! j = xs ! j"
    by (simp add: idx ji [symmetric] q_def)
qed


lemma packedStride_mult4:
  assumes "4 dvd unat w" and "unat w * 10 + 7 < 2 ^ 32"
  shows "packedStride w = 5 * (unat w div 4)"
proof -
  obtain q where q: "unat w = 4 * q"
    using assms(1) by (auto simp: dvd_def)
  have "(unat w * 10 + 7) div 8 = 5 * q"
    by (simp add: q)
  with packedStride_exact [OF assms(2)] q show ?thesis
    by simp
qed

text \<open>For every width whose stride the 32-bit arithmetic computes without wrapping, the
  unpacker inverts the packer on every plane that holds the packed bytes.\<close>

lemma unpack_pack_roundtrip:
  assumes "4 dvd unat w"
    and "length xs = unat w * unat h"
    and "\<forall>v \<in> set xs. unat v \<le> 1023"
    and "unat w * 10 + 7 < 2 ^ 32"
    and "length (planes fb) = 1"
    and "cookie fb \<noteq> 0"
    and "unat (length_p (planes fb ! 0)) = length (pack10 xs)"
    and "\<forall>j < length (pack10 xs).
           mem (cookie fb + unat (offset (planes fb ! 0)) + j) = pack10 xs ! j"
    and "length dst0 = unat w * unat h"
  shows "\<exists>s. unpackRaw10To16 mem (Some fb) w h dst0 = Inr (True, s) \<and> dst s = xs"
proof -
  obtain q where q: "unat w = 4 * q"
    using assms(1) by (auto simp: dvd_def)
  have S: "packedStride w = 5 * (unat w div 4)"
    using assms(1,4) by (rule packedStride_mult4)
  have "length (pack10 xs) = packedStride w * unat h"
    by (simp add: length_pack10 assms(2) S q)
  then have acc: "accepted fb w h dst0"
    using assms(5,6,7,9) by (simp add: accepted_def)
  have small: "unat w \<le> 2 ^ 32 - 4"
    using assms(4) by simp
  have "frame_pixels mem (src_of fb) (5 * (unat w div 4)) (unat w) (unat h) = xs"
    using assms(1,2,3) assms(8) by (intro frame_pixels_pack) (simp_all add: src_of_def)
  with unpack_no_wrap [OF acc small, of mem] S show ?thesis
    by simp
qed

text \<open>
  Claim C4 fails on the code. For \<open>width = 429496732\<close>, a multiple of four, the 32-bit
  \<open>width * 10 + 7\<close> wraps to 31 and \<open>packedStride\<close> is 3 instead of 536870915. With two rows,
  the first of samples 0 and the second of samples 1, the packed plane has 1073741830 bytes
  and passes every test; the second row is then decoded from byte 3 on, inside the first
  row: the sample at index \<open>width\<close> comes out as 0 where the buffer holds 1.
\<close>

theorem roundtrip_fails_at_wide_rows:
  "4 dvd unat (429496732 :: uint32_t)
   \<and> set (replicate 429496732 0 @ replicate 429496732 (1 :: uint16_t)) = {0, 1}
   \<and> length (pack10 (replicate 429496732 0 @ replicate 429496732 1)) = 1073741830
   \<and> (\<exists>s. unpackRaw10To16
          (\<lambda>a. if 4096 \<le> a \<and> a < 4096 + 1073741830
               then pack10 (replicate 429496732 0 @ replicate 429496732 1) ! (a - 4096) else 0)
          (Some \<lparr>planes = [\<lparr>offset = 0, length_p = 1073741830\<rparr>], cookie = 4096\<rparr>)
          429496732 2 (replicate 858993464 0)
        = Inr (True, s)
        \<and> dst s ! 429496732 = 0
        \<and> (replicate 429496732 0 @ replicate 429496732 1) ! 429496732 = (1 :: uint16_t))"
proof -
  define xs :: "uint16_t list" where "xs = replicate 429496732 0 @ replicate 429496732 1"
  define mem :: memory where
    "mem = (\<lambda>a. if 4096 \<le> a \<and> a < 4096 + 1073741830 then pack10 xs ! (a - 4096) else 0)"
  define fb where "fb = \<lparr>planes = [\<lparr>offset = 0, length_p = 1073741830\<rparr>], cookie = 4096\<rparr>"
  define dst0 :: "uint16_t list" where "dst0 = replicate 858993464 0"
  let ?w = "429496732 :: uint32_t" and ?h = "2 :: uint32_t"
  have len: "length xs = 858993464"
    by (simp add: xs_def)
  have plen: "length (pack10 xs) = 1073741830"
    by (simp add: length_pack10 len)
  have vals: "set xs = {0, 1}"
    by (auto simp: xs_def)
  have S: "packedStride ?w = 3"
    by (simp add: packedStride_def)
  have acc: "accepted fb ?w ?h dst0"
    by (simp add: accepted_def fb_def dst0_def S)
  have small: "unat ?w \<le> 2 ^ 32 - 4"
    by simp
  have src: "src_of fb = 4096"
    by (simp add: src_of_def fb_def)
  have run: "unpackRaw10To16 mem (Some fb) ?w ?h dst0 =
      Inr (True, \<lparr>dst = frame_pixels mem 4096 3 (unat ?w) (unat ?h),
                  outIdx = unat ?w * unat ?h,
                  rd = frame_reads 3 (unat ?w) (unat ?h)\<rparr>)"
    using unpack_no_wrap [OF acc small, of mem] by (simp only: S src)
  have "frame_pixels mem 4096 3 (unat ?w) (unat ?h) ! (1 * unat ?w + 0)
      = pixel (mem (4096 + 1 * 3 + 5 * (0 div 4) + 0 mod 4))
          (mem (4096 + 1 * 3 + 5 * (0 div 4) + 4)) (0 mod 4)"
    by (rule frame_pixels_nth) simp_all
  then have px: "frame_pixels mem 4096 3 (unat ?w) (unat ?h) ! 429496732
      = pixel (mem 4099) (mem 4103) 0"
    by simp
  have "pack10 xs ! (5 * 0 + 3) = ucast (xs ! (4 * 0 + 3))"
    using pack10_nth [of 0 xs] len by simp
  moreover have "pack10 xs ! (5 * 1 + 2) = ucast (xs ! (4 * 1 + 2))"
    using pack10_nth [of 1 xs] len by simp
  moreover have "xs ! 3 = 0" "xs ! 6 = 0"
    by (simp_all add: xs_def nth_append)
  ultimately have "mem 4099 = 0" "mem 4103 = 0"
    by (simp_all add: mem_def)
  with px have wrong: "frame_pixels mem 4096 3 (unat ?w) (unat ?h) ! 429496732 = 0"
    by (simp add: pixel_def)
  have right: "xs ! 429496732 = 1"
    by (simp add: xs_def nth_append)
  have "\<exists>s. unpackRaw10To16 mem (Some fb) ?w ?h dst0 = Inr (True, s)
        \<and> dst s ! 429496732 = 0 \<and> xs ! 429496732 = 1"
    using run wrong right by simp
  moreover have "4 dvd unat ?w"
    by simp
  ultimately show ?thesis
    using vals plen
    unfolding xs_def mem_def fb_def dst0_def by (intro conjI)
qed

subsection \<open>The reads of whole groups\<close>

text \<open>When the width is a multiple of four and the stride does not wrap, the length test
  does cover the reads: every index read lies below \<open>packedStride * height\<close>.\<close>

lemma row_reads_bound:
  assumes "i \<in> set (row_reads line n)"
  shows "i < line + 5 * ((n + 3) div 4)"
proof -
  from assms obtain g where g: "g < (n + 3) div 4" and i: "i \<in> set (group_reads (line + 5 * g))"
    by (auto simp: row_reads_def)
  from i have "i < line + 5 * g + 5"
    by (auto simp: group_reads_def)
  also have "\<dots> = line + 5 * Suc g"
    by simp
  also have "\<dots> \<le> line + 5 * ((n + 3) div 4)"
    using g by (intro add_left_mono mult_le_mono2) simp
  finally show ?thesis .
qed

lemma whole_groups_read_inside:
  assumes "4 dvd unat w" and "unat w * 10 + 7 < 2 ^ 32"
    and "unpackRaw10To16 mem (Some fb) w h dst0 = Inr (True, s)"
    and "i \<in> set (rd s)"
  shows "i < packedStride w * unat h"
proof -
  let ?S = "packedStride w"
  obtain q where q: "unat w = 4 * q"
    using assms(1) by (auto simp: dvd_def)
  have S: "?S = 5 * q"
    using packedStride_mult4 [OF assms(1,2)] q by simp
  from unpack_True [OF assms(3)] assms(4)
  have "i \<in> set (frame_reads ?S (unat w) (unat h))"
    by simp
  then obtain r where r: "r < unat h" and i: "i \<in> set (row_reads (r * ?S) (unat w))"
    by (auto simp: frame_reads_def)
  from row_reads_bound [OF i] have "i < r * ?S + ?S"
    by (simp add: q S)
  also have "\<dots> = Suc r * ?S"
    by simp
  also have "\<dots> \<le> unat h * ?S"
    using r by (intro mult_le_mono1) simp
  finally show ?thesis
    by (simp add: mult.commute)
qed

section \<open>Widths beyond the 32-bit arithmetic\<close>

subsection \<open>The stride of a wide row\<close>

text \<open>
  While \<open>width * 10 + 7\<close> is below \<open>2 ^ 32\<close> the code's stride is the packed row length
  \<open>ceil(width * 10 / 8)\<close>, every input that passes the four tests makes the call return
  \<open>true\<close>, and every complete group is decoded from its own five bytes.
\<close>

lemma accepted_groups_decoded:
  assumes "accepted fb w h dst0" and "unat w * 10 + 7 < 2 ^ 32"
    and "y < unat h" and "4 * g + 3 < unat w"
    and "a = cookie fb + unat (offset (planes fb ! 0)) + y * ((unat w * 10 + 7) div 8) + 5 * g"
  shows "\<exists>s. unpackRaw10To16 mem (Some fb) w h dst0 = Inr (True, s)
       \<and> dst s ! (y * unat w + 4 * g + 0)
           = ucast (mem (a + 0)) OR push_bit 8 (ucast (mem (a + 4) AND 0x03))
       \<and> dst s ! (y * unat w + 4 * g + 1)
           = ucast (mem (a + 1)) OR push_bit 8 (ucast (drop_bit 2 (mem (a + 4)) AND 0x03))
       \<and> dst s ! (y * unat w + 4 * g + 2)
           = ucast (mem (a + 2)) OR push_bit 8 (ucast (drop_bit 4 (mem (a + 4)) AND 0x03))
       \<and> dst s ! (y * unat w + 4 * g + 3)
           = ucast (mem (a + 3)) OR push_bit 8 (ucast (drop_bit 6 (mem (a + 4)) AND 0x03))
       \<and> length (dst s) = unat w * unat h
       \<and> (\<forall>v \<in> set (dst s). drop_bit 10 v = 0 \<and> unat v \<le> 1023)"
proof -
  have small: "unat w \<le> 2 ^ 32 - 4"
    using assms(2) by simp
  have S: "packedStride w = (unat w * 10 + 7) div 8"
    using assms(2) by (rule packedStride_exact)
  obtain s where run: "unpackRaw10To16 mem (Some fb) w h dst0 = Inr (True, s)"
    using unpack_no_wrap [OF assms(1) small, of mem] by simp
  have a: "a = cookie fb + unat (offset (planes fb ! 0)) + y * packedStride w + 5 * g"
    using assms(5) S by simp
  from returned_groups_decoded [OF run assms(3,4) a] run show ?thesis
    by blast
qed

text \<open>
  Claim C1 fails on the code. For \<open>width = 429496732\<close>, \<open>height = 2\<close> the packed row length
  \<open>ceil(width * 10 / 8)\<close> is 536870915, and a plane of 1073741830 bytes with an output of
  858993464 samples meets the three conditions of the claim. The code computes
  \<open>(width * 10 + 7) / 8\<close> in \<open>uint32_t\<close>: the sum wraps and \<open>packedStride\<close> is 3. The call
  returns \<open>true\<close>, and the first group of row 1 is decoded from the bytes 3 to 7 of the
  plane, which hold \<open>0x00\<close>, where the five bytes of that group, at \<open>536870915\<close> to
  \<open>536870919\<close>, hold \<open>0xFF\<close>: the four pixels come out as 0 where the four formulas of
  the claim give 1023.
\<close>

theorem wide_row_decoded_from_wrong_bytes:
  "length (replicate 858993464 (0 :: uint16_t))
      = unat (429496732 :: uint32_t) * unat (2 :: uint32_t)
   \<and> (unat (429496732 :: uint32_t) * 10 + 7) div 8 = 536870915
   \<and> 536870915 * unat (2 :: uint32_t) \<le> unat (1073741830 :: uint32_t)
   \<and> packedStride 429496732 = 3
   \<and> (\<exists>s. unpackRaw10To16
          (\<lambda>a. if 4096 + 536870915 \<le> a \<and> a < 4096 + 1073741830 then 0xFF else 0)
          (Some \<lparr>planes = [\<lparr>offset = 0, length_p = 1073741830\<rparr>], cookie = 4096\<rparr>)
          429496732 2 (replicate 858993464 0)
        = Inr (True, s)
        \<and> dst s ! (1 * 429496732 + 4 * 0 + 0) = 0
        \<and> dst s ! (1 * 429496732 + 4 * 0 + 1) = 0
        \<and> dst s ! (1 * 429496732 + 4 * 0 + 2) = 0
        \<and> dst s ! (1 * 429496732 + 4 * 0 + 3) = 0)
   \<and> ucast (0xFF :: uint8_t) OR push_bit 8 (ucast ((0xFF :: uint8_t) AND 0x03))
       = (1023 :: uint16_t)
   \<and> ucast (0xFF :: uint8_t) OR push_bit 8 (ucast (drop_bit 2 (0xFF :: uint8_t) AND 0x03))
       = (1023 :: uint16_t)
   \<and> ucast (0xFF :: uint8_t) OR push_bit 8 (ucast (drop_bit 4 (0xFF :: uint8_t) AND 0x03))
       = (1023 :: uint16_t)
   \<and> ucast (0xFF :: uint8_t) OR push_bit 8 (ucast (drop_bit 6 (0xFF :: uint8_t) AND 0x03))
       = (1023 :: uint16_t)"
proof -
  define mem :: memory where
    "mem = (\<lambda>a. if 4096 + 536870915 \<le> a \<and> a < 4096 + 1073741830 then 0xFF else 0)"
  define fb where "fb = \<lparr>planes = [\<lparr>offset = 0, length_p = 1073741830\<rparr>], cookie = 4096\<rparr>"
  define dst0 :: "uint16_t list" where "dst0 = replicate 858993464 0"
  let ?w = "429496732 :: uint32_t" and ?h = "2 :: uint32_t"
  have S: "packedStride ?w = 3"
    by (simp add: packedStride_def)
  have acc: "accepted fb ?w ?h dst0"
    by (simp add: accepted_def fb_def dst0_def S)
  have small: "unat ?w \<le> 2 ^ 32 - 4"
    by simp
  have src: "src_of fb = 4096"
    by (simp add: src_of_def fb_def)
  have run: "unpackRaw10To16 mem (Some fb) ?w ?h dst0 =
      Inr (True, \<lparr>dst = frame_pixels mem 4096 3 (unat ?w) (unat ?h),
                  outIdx = unat ?w * unat ?h,
                  rd = frame_reads 3 (unat ?w) (unat ?h)\<rparr>)"
    using unpack_no_wrap [OF acc small, of mem] by (simp only: S src)
  have px: "frame_pixels mem 4096 3 (unat ?w) (unat ?h) ! (1 * unat ?w + k) = 0"
    if "k < 4" for k
  proof -
    have "frame_pixels mem 4096 3 (unat ?w) (unat ?h) ! (1 * unat ?w + k)
      = pixel (mem (4096 + 1 * 3 + 5 * (k div 4) + k mod 4))
          (mem (4096 + 1 * 3 + 5 * (k div 4) + 4)) (k mod 4)"
      using that by (intro frame_pixels_nth) simp_all
    then show ?thesis
      using that by (simp add: mem_def pixel_def)
  qed
  have "\<exists>s. unpackRaw10To16 mem (Some fb) ?w ?h dst0 = Inr (True, s)
        \<and> dst s ! (1 * 429496732 + 4 * 0 + 0) = 0
        \<and> dst s ! (1 * 429496732 + 4 * 0 + 1) = 0
        \<and> dst s ! (1 * 429496732 + 4 * 0 + 2) = 0
        \<and> dst s ! (1 * 429496732 + 4 * 0 + 3) = 0"
    using run px [of 0] px [of 1] px [of 2] px [of 3] by simp
  moreover have "length (replicate 858993464 (0 :: uint16_t)) = unat ?w * unat ?h"
    by simp
  moreover have "(unat ?w * 10 + 7) div 8 = 536870915"
    by simp
  moreover have "536870915 * unat ?h \<le> unat (1073741830 :: uint32_t)"
    by simp
  moreover have
    "ucast (0xFF :: uint8_t) OR push_bit 8 (ucast ((0xFF :: uint8_t) AND 0x03))
       = (1023 :: uint16_t)"
    "ucast (0xFF :: uint8_t) OR push_bit 8 (ucast (drop_bit 2 (0xFF :: uint8_t) AND 0x03))
       = (1023 :: uint16_t)"
    "ucast (0xFF :: uint8_t) OR push_bit 8 (ucast (drop_bit 4 (0xFF :: uint8_t) AND 0x03))
       = (1023 :: uint16_t)"
    "ucast (0xFF :: uint8_t) OR push_bit 8 (ucast (drop_bit 6 (0xFF :: uint8_t) AND 0x03))
       = (1023 :: uint16_t)"
    by simp_all
  ultimately show ?thesis
    using S unfolding mem_def fb_def dst0_def by (intro conjI)
qed

subsection \<open>The column counter of a wide row\<close>

text \<open>
  Up to the width \<open>2 ^ 32 - 4\<close> every input that passes the four tests makes the call return
  \<open>true\<close> with exactly \<open>width\<close> samples in each row, when the width is not a multiple of
  four as well.
\<close>

lemma accepted_partial_group:
  assumes "unat w mod 4 \<noteq> 0" and "accepted fb w h dst0" and "unat w \<le> 2 ^ 32 - 4"
    and "src = cookie fb + unat (offset (planes fb ! 0))"
  shows "\<exists>s. unpackRaw10To16 mem (Some fb) w h dst0 = Inr (True, s)
       \<and> outIdx s = unat w * unat h
       \<and> length (dst s) = unat w * unat h
       \<and> dst s = concat (map (\<lambda>y.
             concat (map (\<lambda>g. group_pixels mem (src + y * packedStride w + 5 * g))
                       [0..<unat w div 4])
             @ take (unat w mod 4)
                 (group_pixels mem (src + y * packedStride w + 5 * (unat w div 4))))
           [0..<unat h])"
proof -
  obtain s where run: "unpackRaw10To16 mem (Some fb) w h dst0 = Inr (True, s)"
    using unpack_no_wrap [OF assms(2,3), of mem] by simp
  from returned_partial_group [OF assms(1) run assms(4)] run show ?thesis
    by blast
qed


section \<open>The stream of the writer in closed form\<close>

lemma length_le16 [simp]: "length (le16 v) = 2"
  by (simp add: le16_def)

lemma length_le32 [simp]: "length (le32 v) = 4"
  by (simp add: le32_def)

lemma length_rational [simp]: "length (rational n d) = 8"
  by (simp add: rational_def)

lemma length_bayerPattern2x2 [simp]: "length (bayerPattern2x2 b) = 4"
  by (cases b) simp_all

lemma bayerPattern2x2_elems:
  "[bayerPattern2x2 b ! 0, bayerPattern2x2 b ! 1, bayerPattern2x2 b ! 2, bayerPattern2x2 b ! 3]
     = bayerPattern2x2 b"
  by (cases b) simp_all

lemma length_cameraModel [simp]: "length cameraModel = 41"
  by (simp add: cameraModel_def)

lemma length_tiffHeader [simp]: "length tiffHeader = 8"
  by (simp add: tiffHeader_def)

lemma length_entryBytes [simp]: "length (entryBytes e) = 12"
  by (simp add: entryBytes_def)

lemma length_dataBlocks [simp]: "length (dataBlocks meta) = 152"
  by (simp add: dataBlocks_def)

lemma f_write_end:
  "P = length B \<Longrightarrow> f_write bs \<lparr>buf = B, pos = P\<rparr> = \<lparr>buf = B @ bs, pos = P + length bs\<rparr>"
  by (simp add: f_write_def)

lemma f_write_gap:
  "length B \<le> P \<Longrightarrow> bs \<noteq> [] \<Longrightarrow>
     f_write bs \<lparr>buf = B, pos = P\<rparr>
       = \<lparr>buf = B @ replicate (P - length B) 0 @ bs, pos = P + length bs\<rparr>"
  by (simp add: f_write_def)

lemma f_write_over:
  "P + length bs \<le> length B \<Longrightarrow>
     f_write bs \<lparr>buf = B, pos = P\<rparr>
       = \<lparr>buf = take P B @ bs @ drop (P + length bs) B, pos = P + length bs\<rparr>"
  by (simp add: f_write_def)

lemma f_write_inside:
  "pos f \<le> length (buf f) \<Longrightarrow> pos (f_write bs f) \<le> length (buf (f_write bs f))"
  by (simp add: f_write_def)

lemma f_write_f_write:
  assumes "pos f \<le> length (buf f)"
  shows "f_write b2 (f_write b1 f) = f_write (b1 @ b2) f"
proof (cases "b1 = [] \<or> b2 = []")
  case True
  then show ?thesis by (auto simp: f_write_def)
next
  case False
  have "drop (length b2 + (pos f + length b1)) (buf f)
      = drop (pos f + (length b1 + length b2)) (buf f)"
    by (simp add: ac_simps)
  with False assms show ?thesis
    by (simp add: f_write_def min_def)
qed

lemma fold_f_write:
  assumes "pos f \<le> length (buf f)"
  shows "fold (\<lambda>c. f_write (g c)) cs f = f_write (concat (map g cs)) f"
  using assms
proof (induction cs arbitrary: f)
  case Nil
  then show ?case by (simp add: f_write_def)
next
  case (Cons c cs)
  then show ?case
    by (simp add: f_write_inside f_write_f_write)
qed

lemma writeIfd_eq:
  assumes "length ifd < 2 ^ 16" and "P \<le> length B"
    and "P + length (ifdBytes ifd) \<le> length B"
  shows "writeIfd P ifd \<lparr>buf = B, pos = E\<rparr>
     = \<lparr>buf = take P B @ ifdBytes ifd @ drop (P + length (ifdBytes ifd)) B, pos = E\<rparr>"
proof -
  let ?n = "word_of_nat (length ifd) :: uint16_t"
  let ?f1 = "\<lparr>buf = B, pos = P\<rparr>"
  have n: "unat ?n = length ifd"
    using assms(1) by (simp add: unat_of_nat take_bit_nat_eq_self)
  have "map (\<lambda>i. entryBytes (ifd ! i)) [0..<length ifd] = map entryBytes ifd"
    by (rule nth_equalityI) simp_all
  then have entries: "concat (map (\<lambda>i. entryBytes (ifd ! i)) [0..<length ifd])
      = concat (map entryBytes ifd)"
    by simp
  have in1: "pos ?f1 \<le> length (buf ?f1)"
    using assms(2) by simp
  have in2: "pos (f_write (le16 ?n) ?f1) \<le> length (buf (f_write (le16 ?n) ?f1))"
    using in1 by (rule f_write_inside)
  have "f_write (le32 0)
          (fold (\<lambda>i. f_write (entryBytes (ifd ! i))) [0..<unat ?n] (f_write (le16 ?n) ?f1))
      = f_write (le32 0)
          (f_write (concat (map (\<lambda>i. entryBytes (ifd ! i)) [0..<unat ?n]))
             (f_write (le16 ?n) ?f1))"
    using in2 by (simp only: fold_f_write)
  also have "\<dots> = f_write (ifdBytes ifd) ?f1"
    using in1 in2
    by (simp add: f_write_f_write f_write_inside n entries ifdBytes_def)
  also have "\<dots> = \<lparr>buf = take P B @ ifdBytes ifd @ drop (P + length (ifdBytes ifd)) B,
                    pos = P + length (ifdBytes ifd)\<rparr>"
    using assms(3) by (rule f_write_over)
  finally show ?thesis
    by (simp add: writeIfd_def Let_def seekp_def tellp_def)
qed

lemma header_stream: "f_write tiffHeader \<lparr>buf = [], pos = 0\<rparr> = \<lparr>buf = tiffHeader, pos = 8\<rparr>"
  by (simp add: f_write_end)

lemma ifdStart_eq [simp]: "ifdStart = 8"
  by (simp add: ifdStart_def tellp_def header_stream)

lemma bayerPattern2x2_elems':
  "[bayerPattern2x2 b ! 0, bayerPattern2x2 b ! Suc 0, bayerPattern2x2 b ! 2, bayerPattern2x2 b ! 3]
     = bayerPattern2x2 b"
  by (cases b) simp_all

lemma writeBlocks_eq:
  "writeBlocks meta pixels \<lparr>buf = tiffHeader, pos = 278\<rparr>
     = (layoutOffsets meta,
        \<lparr>buf = tiffHeader @ replicate 270 0 @ dataBlocks meta @ stripBytes meta pixels,
          pos = 430 + length (stripBytes meta pixels)\<rparr>)"
  by (simp add: writeBlocks_def writeArraySHORT_def writeArrayBYTE_def writeArrayRATIONAL_def
      writeAscii_def align2_def currentOffset_def tellp_def f_write_end f_write_gap Let_def
      bayerPattern2x2_elems' layoutOffsets_def dataBlocks_def stripBytes_def rational_def
      le16_def le32_def)

lemma length_assembleIfd [simp]: "length (assembleIfd meta off) = 20"
  by (simp add: assembleIfd_def)

lemma length_concat_entries: "length (concat (map entryBytes ifd)) = 12 * length ifd"
  by (induction ifd) simp_all

lemma length_ifdBytes [simp]: "length (ifdBytes ifd) = 6 + 12 * length ifd"
  by (simp add: ifdBytes_def length_concat_entries)

lemma writeStream_eq:
  "writeStream meta pixels
     = (layoutOffsets meta,
        \<lparr>buf = tiffHeader @ ifdBytes (assembleIfd meta (layoutOffsets meta)) @ replicate 24 0
                 @ dataBlocks meta @ stripBytes meta pixels,
          pos = 430 + length (stripBytes meta pixels)\<rparr>)"
proof -
  let ?B = "tiffHeader @ replicate 270 0 @ dataBlocks meta @ stripBytes meta pixels"
  let ?ifd = "assembleIfd meta (layoutOffsets meta)"
  have "writeIfd 8 ?ifd \<lparr>buf = ?B, pos = 430 + length (stripBytes meta pixels)\<rparr>
      = \<lparr>buf = take 8 ?B @ ifdBytes ?ifd @ drop (8 + length (ifdBytes ?ifd)) ?B,
         pos = 430 + length (stripBytes meta pixels)\<rparr>"
    by (rule writeIfd_eq) simp_all
  moreover have "take 8 ?B = tiffHeader"
    by simp
  moreover have "drop (8 + length (ifdBytes ?ifd)) ?B
      = replicate 24 0 @ dataBlocks meta @ stripBytes meta pixels"
    by simp
  ultimately show ?thesis
    by (simp add: writeStream_def header_stream seekp_def tellp_def writeBlocks_eq)
qed

lemma write_succeeds:
  assumes "length pixels = unat (width meta) * unat (height meta)" and "can_open fs path"
  shows "DngWriter_write path meta pixels fs
     = (True, fs\<lparr>files := (files fs)(path \<mapsto>
          tiffHeader @ ifdBytes (assembleIfd meta (layoutOffsets meta)) @ replicate 24 0
            @ dataBlocks meta @ concat (map le16 pixels))\<rparr>)"
proof -
  have "length (concat (map le16 pixels)) = 2 * length pixels"
    by (induction pixels) simp_all
  then have "stripBytes meta pixels = concat (map le16 pixels)"
    using assms(1) by (simp add: stripBytes_def)
  with assms show ?thesis
    by (simp add: DngWriter_write_def writeStream_eq)
qed

lemma write_True:
  assumes "DngWriter_write path meta pixels fs = (True, fs')"
  shows "length pixels = unat (width meta) * unat (height meta) \<and> can_open fs path
     \<and> files fs' path = Some (tiffHeader @ ifdBytes (assembleIfd meta (layoutOffsets meta))
            @ replicate 24 0 @ dataBlocks meta @ concat (map le16 pixels))"
proof -
  from assms have ok: "length pixels = unat (width meta) * unat (height meta)" "can_open fs path"
    by (auto simp: DngWriter_write_def Let_def split: if_splits)
  from write_succeeds [OF ok] assms show ?thesis
    using ok by auto
qed

section \<open>Properties of the writer\<close>

subsection \<open>Where the blocks lie\<close>

lemma length_before_blocks:
  "length (tiffHeader @ ifdBytes (assembleIfd meta off) @ replicate 24 0) = 278"
  by simp

lemma drop_to_blocks:
  "drop 278 (tiffHeader @ ifdBytes (assembleIfd meta off) @ replicate 24 0 @ bs) = bs"
  by simp

lemma drop_file:
  assumes "278 \<le> n"
  shows "drop n (tiffHeader @ ifdBytes (assembleIfd meta off) @ replicate 24 0 @ bs)
     = drop (n - 278) bs"
proof -
  have "drop n (tiffHeader @ ifdBytes (assembleIfd meta off) @ replicate 24 0 @ bs)
      = drop (n - 278) (drop 278 (tiffHeader @ ifdBytes (assembleIfd meta off) @ replicate 24 0 @ bs))"
    using assms by (simp only: drop_drop) simp
  then show ?thesis
    by (simp only: drop_to_blocks)
qed

lemma example_write:
  "DngWriter_write ''out/imx296_000000.dng'' example_meta example_pixels example_fs
     = (True, example_fs\<lparr>files := (files example_fs)(''out/imx296_000000.dng'' \<mapsto>
          buf (snd (writeStream example_meta example_pixels)))\<rparr>)"
  by (simp add: DngWriter_write_def example_meta_def example_pixels_def example_fs_def)

text \<open>
  Claim C9. In the file of every successful \<open>DngWriter::write\<close>, each out-of-line data block
  (the SHORT arrays, the BYTE arrays, the RATIONAL arrays and the camera model with its
  NUL) lies at the offset that the writer recorded for it, the pixel strip lies at
  \<open>stripOffset\<close> and runs to the end of the file, and each of these offsets is even.
  \<open>writeAscii\<close> does not align, but the 4 bytes of the DNG version before the string end at
  an even offset.
\<close>

theorem blocks_start_even:
  assumes "DngWriter_write path meta pixels fs = (True, fs')"
    and "off = fst (writeStream meta pixels)"
  shows "\<exists>bytes. files fs' path = Some bytes
     \<and> even (unat (bpsOff off))
     \<and> take 2 (drop (unat (bpsOff off)) bytes) = le16 (bitsPerSample meta)
     \<and> even (unat (cfaDimOff off))
     \<and> take 4 (drop (unat (cfaDimOff off)) bytes) = le16 2 @ le16 2
     \<and> even (unat (cfaPattOff off))
     \<and> take 4 (drop (unat (cfaPattOff off)) bytes) = bayerPattern2x2 (bayer meta)
     \<and> even (unat (cfaPlaneColorOff off))
     \<and> take 3 (drop (unat (cfaPlaneColorOff off)) bytes) = [0, 1, 2]
     \<and> even (unat (defaultScaleOff off))
     \<and> take 16 (drop (unat (defaultScaleOff off)) bytes) = rational 1 1 @ rational 1 1
     \<and> even (unat (dngVerOff off))
     \<and> take 4 (drop (unat (dngVerOff off)) bytes) = [1, 4, 0, 0]
     \<and> even (unat (ucmOff off))
     \<and> take 42 (drop (unat (ucmOff off)) bytes) = map of_char cameraModel @ [0]
     \<and> even (unat (blackOff off))
     \<and> take 2 (drop (unat (blackOff off)) bytes) = le16 (blackLevel meta)
     \<and> even (unat (whiteOff off))
     \<and> take 2 (drop (unat (whiteOff off)) bytes) = le16 (whiteLevel meta)
     \<and> even (unat (cmOff off))
     \<and> take 72 (drop (unat (cmOff off)) bytes)
         = rational 1 1 @ rational 0 1 @ rational 0 1
           @ rational 0 1 @ rational 1 1 @ rational 0 1
           @ rational 0 1 @ rational 0 1 @ rational 1 1
     \<and> even (unat (stripOffset off))
     \<and> drop (unat (stripOffset off)) bytes = concat (map le16 pixels)"
proof -
  let ?bytes = "tiffHeader @ ifdBytes (assembleIfd meta (layoutOffsets meta)) @ replicate 24 0
      @ dataBlocks meta @ concat (map le16 pixels)"
  have written: "files fs' path = Some ?bytes"
    using write_True [OF assms(1)] by simp
  have off: "off = layoutOffsets meta"
    by (simp add: assms(2) writeStream_eq)
  have o: "unat (bpsOff off) = 278" "unat (cfaDimOff off) = 280" "unat (cfaPattOff off) = 284"
    "unat (cfaPlaneColorOff off) = 288" "unat (defaultScaleOff off) = 292"
    "unat (dngVerOff off) = 308" "unat (ucmOff off) = 312" "unat (blackOff off) = 354"
    "unat (whiteOff off) = 356" "unat (cmOff off) = 358" "unat (stripOffset off) = 430"
    by (simp_all add: off layoutOffsets_def)
  have b1: "take 2 (drop 278 ?bytes) = le16 (bitsPerSample meta)"
    by (simp add: drop_file dataBlocks_def)
  have b2: "take 4 (drop 280 ?bytes) = le16 2 @ le16 2"
    by (simp add: drop_file dataBlocks_def)
  have b3: "take 4 (drop 284 ?bytes) = bayerPattern2x2 (bayer meta)"
    by (simp add: drop_file dataBlocks_def)
  have b4: "take 3 (drop 288 ?bytes) = [0, 1, 2]"
    by (simp add: drop_file dataBlocks_def)
  have b5: "take 16 (drop 292 ?bytes) = rational 1 1 @ rational 1 1"
    by (simp add: drop_file dataBlocks_def)
  have b6: "take 4 (drop 308 ?bytes) = [1, 4, 0, 0]"
    by (simp add: drop_file dataBlocks_def)
  have b7: "take 42 (drop 312 ?bytes) = map of_char cameraModel @ [0]"
    by (simp add: drop_file dataBlocks_def)
  have b8: "take 2 (drop 354 ?bytes) = le16 (blackLevel meta)"
    by (simp add: drop_file dataBlocks_def)
  have b9: "take 2 (drop 356 ?bytes) = le16 (whiteLevel meta)"
    by (simp add: drop_file dataBlocks_def)
  have b10: "take 72 (drop 358 ?bytes)
         = rational 1 1 @ rational 0 1 @ rational 0 1
           @ rational 0 1 @ rational 1 1 @ rational 0 1
           @ rational 0 1 @ rational 0 1 @ rational 1 1"
    by (simp add: drop_file dataBlocks_def)
  have b11: "drop 430 ?bytes = concat (map le16 pixels)"
    by (simp add: drop_file)
  show ?thesis
    using written b1 b2 b3 b4 b5 b6 b7 b8 b9 b10 b11
    by (simp only: o) simp
qed

theorem blocks_start_even_witness:
  "DngWriter_write ''out/imx296_000000.dng'' example_meta example_pixels example_fs
     = (True, example_fs\<lparr>files := (files example_fs)(''out/imx296_000000.dng'' \<mapsto>
          buf (snd (writeStream example_meta example_pixels)))\<rparr>)
   \<and> even (unat (ucmOff (fst (writeStream example_meta example_pixels))))
   \<and> take 42 (drop (unat (ucmOff (fst (writeStream example_meta example_pixels))))
         (buf (snd (writeStream example_meta example_pixels))))
       = map of_char cameraModel @ [0]
   \<and> even (unat (stripOffset (fst (writeStream example_meta example_pixels))))"
  using blocks_start_even [OF example_write refl] example_write
  by simp

subsection \<open>The Bayer layout\<close>

text \<open>
  Claim C5. \<open>bayerPattern2x2\<close> maps the four variants to \<open>[0,1,1,2]\<close>, \<open>[2,1,1,0]\<close>,
  \<open>[1,0,2,1]\<close> and \<open>[1,2,0,1]\<close>; \<open>toBayer\<close> maps each canonical token to its variant and
  every other string to \<open>RGGB\<close>, hence to the pattern \<open>[0,1,1,2]\<close>; and the plane-colour
  array in the file of a successful call is \<open>[0,1,2]\<close> whatever the metadata, so whatever
  the variant.
\<close>

theorem bayer_resolver_table:
  "bayerPattern2x2 RGGB = [0, 1, 1, 2]
   \<and> bayerPattern2x2 BGGR = [2, 1, 1, 0]
   \<and> bayerPattern2x2 GRBG = [1, 0, 2, 1]
   \<and> bayerPattern2x2 GBRG = [1, 2, 0, 1]
   \<and> toBayer ''RGGB'' = RGGB \<and> toBayer ''BGGR'' = BGGR
   \<and> toBayer ''GRBG'' = GRBG \<and> toBayer ''GBRG'' = GBRG
   \<and> (s \<notin> {''RGGB'', ''BGGR'', ''GRBG'', ''GBRG''} \<longrightarrow>
        toBayer s = RGGB \<and> bayerPattern2x2 (toBayer s) = [0, 1, 1, 2])
   \<and> (DngWriter_write path meta pixels fs = (True, fs') \<longrightarrow>
        (\<exists>bytes. files fs' path = Some bytes
          \<and> take 3 (drop (unat (cfaPlaneColorOff (fst (writeStream meta pixels)))) bytes)
              = [0, 1, 2]))"
proof -
  have "\<exists>bytes. files fs' path = Some bytes
          \<and> take 3 (drop (unat (cfaPlaneColorOff (fst (writeStream meta pixels)))) bytes)
              = [0, 1, 2]"
    if ok: "DngWriter_write path meta pixels fs = (True, fs')"
  proof -
    let ?bytes = "tiffHeader @ ifdBytes (assembleIfd meta (layoutOffsets meta)) @ replicate 24 0
        @ dataBlocks meta @ concat (map le16 pixels)"
    have "files fs' path = Some ?bytes"
      using write_True [OF ok] by simp
    moreover have "unat (cfaPlaneColorOff (fst (writeStream meta pixels))) = 288"
      by (simp add: writeStream_eq layoutOffsets_def)
    moreover have "take 3 (drop 288 ?bytes) = [0, 1, 2]"
      by (simp add: drop_file dataBlocks_def)
    ultimately show ?thesis
      by simp
  qed
  then show ?thesis
    by (simp add: toBayer_def)
qed

theorem bayer_resolver_table_witness:
  "''rggb'' \<notin> {''RGGB'', ''BGGR'', ''GRBG'', ''GBRG''}
   \<and> bayerPattern2x2 (toBayer ''rggb'') = [0, 1, 1, 2]
   \<and> DngWriter_write ''out/imx296_000000.dng'' example_meta example_pixels example_fs
     = (True, example_fs\<lparr>files := (files example_fs)(''out/imx296_000000.dng'' \<mapsto>
          buf (snd (writeStream example_meta example_pixels)))\<rparr>)
   \<and> take 3 (drop (unat (cfaPlaneColorOff (fst (writeStream example_meta example_pixels))))
         (buf (snd (writeStream example_meta example_pixels)))) = [0, 1, 2]"
  using bayer_resolver_table [of "''rggb''" "''out/imx296_000000.dng''" example_meta
      example_pixels example_fs
      "example_fs\<lparr>files := (files example_fs)(''out/imx296_000000.dng'' \<mapsto>
          buf (snd (writeStream example_meta example_pixels)))\<rparr>"]
    example_write
  by simp

subsection \<open>The order of the stream\<close>

lemma type_sizes [simp]:
  "type_size TYPE_BYTE = 1" "type_size TYPE_ASCII = 1" "type_size TYPE_SHORT = 2"
  "type_size TYPE_LONG = 4" "type_size TYPE_RATIONAL = 8"
  by (simp_all add: type_size_def
      TYPE_BYTE_def TYPE_ASCII_def TYPE_SHORT_def TYPE_LONG_def TYPE_RATIONAL_def)

lemma payload_entry [simp]: "payload (entry t ty n v) = type_size ty * unat n"
  by (simp add: payload_def entry_def)

lemma value_entry [simp]: "value_e (entry t ty n v) = v"
  by (simp add: entry_def)

lemma out_of_line_entries:
  assumes "e \<in> set (assembleIfd meta (layoutOffsets meta))" and "4 < payload e"
  shows "278 \<le> unat (value_e e) \<and> unat (value_e e) + payload e \<le> 430"
proof -
  from assms(1) consider
      "e = entry TAG_ImageWidth TYPE_LONG 1 (width meta)"
    | "e = entry TAG_ImageLength TYPE_LONG 1 (height meta)"
    | "e = entry TAG_BitsPerSample TYPE_SHORT 1 278"
    | "e = entry TAG_Compression TYPE_SHORT 1 1"
    | "e = entry TAG_Photometric TYPE_SHORT 1 32803"
    | "e = entry TAG_SamplesPerPixel TYPE_SHORT 1 1"
    | "e = entry TAG_PlanarConfig TYPE_SHORT 1 1"
    | "e = entry TAG_RowsPerStrip TYPE_LONG 1 (height meta)"
    | "e = entry TAG_StripOffsets TYPE_LONG 1 430"
    | "e = entry TAG_StripByteCounts TYPE_LONG 1
             (word_of_nat (unat (width meta) * unat (height meta) * 2))"
    | "e = entry TAG_CFARepeatPattern TYPE_SHORT 2 280"
    | "e = entry TAG_CFAPattern TYPE_BYTE 4 284"
    | "e = entry TAG_CFAPlaneColor TYPE_BYTE 3 288"
    | "e = entry TAG_DNGVersion TYPE_BYTE 4 308"
    | "e = entry TAG_UniqueCameraModel TYPE_ASCII 42 312"
    | "e = entry TAG_BlackLevel TYPE_SHORT 1 354"
    | "e = entry TAG_WhiteLevel TYPE_SHORT 1 356"
    | "e = entry TAG_DefaultScale TYPE_RATIONAL 2 292"
    | "e = entry TAG_CalibrationIlluminant1 TYPE_SHORT 1
             (ucast (float_to_uint16 (cfaIlluminant meta)))"
    | "e = entry TAG_ColorMatrix1 TYPE_RATIONAL 9 358"
    unfolding assembleIfd_def layoutOffsets_def
    by (simp only: set_simps insert_iff empty_iff offsets.simps length_cameraModel) auto
  then show ?thesis
    using assms(2) by cases simp_all
qed

text \<open>
  Claim C3 fails on the code as stated. In the file of the example the directory table
  lies at offset 8; its entry 17, DefaultScale, has a payload of 16 bytes and references
  offset 292, where the two rationals lie: a block behind the directory table, not before
  it.
\<close>

theorem directory_precedes_blocks:
  "ifdStart = 8
   \<and> take 246 (drop 8 (buf (snd (writeStream example_meta example_pixels))))
       = ifdBytes (assembleIfd example_meta (fst (writeStream example_meta example_pixels)))
   \<and> assembleIfd example_meta (fst (writeStream example_meta example_pixels)) ! 17
       = entry TAG_DefaultScale TYPE_RATIONAL 2 292
   \<and> payload (entry TAG_DefaultScale TYPE_RATIONAL 2 292) = 16
   \<and> take 16 (drop 292 (buf (snd (writeStream example_meta example_pixels))))
       = rational 1 1 @ rational 1 1
   \<and> \<not> 292 + 16 \<le> ifdStart"
proof -
  have "take 246 (drop 8 (buf (snd (writeStream example_meta example_pixels))))
       = ifdBytes (assembleIfd example_meta (fst (writeStream example_meta example_pixels)))"
    by (simp add: writeStream_eq)
  moreover have "assembleIfd example_meta (fst (writeStream example_meta example_pixels)) ! 17
       = entry TAG_DefaultScale TYPE_RATIONAL 2 292"
    by (simp add: writeStream_eq assembleIfd_def layoutOffsets_def)
  moreover have "take 16 (drop 292 (buf (snd (writeStream example_meta example_pixels))))
       = rational 1 1 @ rational 1 1"
    by (simp add: writeStream_eq drop_file dataBlocks_def)
  ultimately show ?thesis
    by simp
qed

text \<open>
  Claim C3, amended. The file of a successful call is, in this order: the 8-byte header;
  the directory table at \<open>ifdStart = 8\<close> (the count, the 20 entries, the 4-byte zero
  terminator); the 24 unused bytes of the region reserved for 22 entries, which read as
  zero; the out-of-line data blocks; the pixel strip. Every directory entry whose payload
  exceeds 4 bytes references a block that starts behind the directory table and the
  reserved region and ends before the pixel strip.
\<close>

theorem stream_order:
  assumes "DngWriter_write path meta pixels fs = (True, fs')"
    and "ifd = assembleIfd meta (fst (writeStream meta pixels))"
  shows "files fs' path
           = Some (tiffHeader @ ifdBytes ifd @ replicate 24 0 @ dataBlocks meta
                   @ concat (map le16 pixels))
       \<and> length tiffHeader = 8
       \<and> ifdStart = length tiffHeader
       \<and> length (ifdBytes ifd) = 2 + 12 * 20 + 4
       \<and> (\<forall>e \<in> set ifd. 4 < payload e \<longrightarrow>
            length (tiffHeader @ ifdBytes ifd @ replicate 24 0) \<le> unat (value_e e)
          \<and> unat (value_e e) + payload e
              \<le> length (tiffHeader @ ifdBytes ifd @ replicate 24 0 @ dataBlocks meta))"
proof -
  have ifd: "ifd = assembleIfd meta (layoutOffsets meta)"
    by (simp add: assms(2) writeStream_eq)
  have written: "files fs' path
           = Some (tiffHeader @ ifdBytes ifd @ replicate 24 0 @ dataBlocks meta
                   @ concat (map le16 pixels))"
    using write_True [OF assms(1)] by (simp add: ifd)
  have len: "length (tiffHeader @ ifdBytes ifd @ replicate 24 0) = 278"
    "length (tiffHeader @ ifdBytes ifd @ replicate 24 0 @ dataBlocks meta) = 430"
    by (simp_all add: ifd)
  have blocks: "\<forall>e \<in> set ifd. 4 < payload e \<longrightarrow>
            length (tiffHeader @ ifdBytes ifd @ replicate 24 0) \<le> unat (value_e e)
          \<and> unat (value_e e) + payload e
              \<le> length (tiffHeader @ ifdBytes ifd @ replicate 24 0 @ dataBlocks meta)"
    unfolding len using out_of_line_entries [of _ meta] by (simp add: ifd)
  have h: "length tiffHeader = 8" "ifdStart = length tiffHeader"
    "length (ifdBytes ifd) = 2 + 12 * 20 + 4"
    by (simp_all add: ifd)
  show ?thesis
    using written h blocks by (intro conjI)
qed

theorem stream_order_witness:
  "DngWriter_write ''out/imx296_000000.dng'' example_meta example_pixels example_fs
     = (True, example_fs\<lparr>files := (files example_fs)(''out/imx296_000000.dng'' \<mapsto>
          buf (snd (writeStream example_meta example_pixels)))\<rparr>)
   \<and> entry TAG_ColorMatrix1 TYPE_RATIONAL 9 358
       \<in> set (assembleIfd example_meta (fst (writeStream example_meta example_pixels)))
   \<and> 4 < payload (entry TAG_ColorMatrix1 TYPE_RATIONAL 9 358)
   \<and> length (tiffHeader
         @ ifdBytes (assembleIfd example_meta (fst (writeStream example_meta example_pixels)))
         @ replicate 24 0)
       \<le> unat (value_e (entry TAG_ColorMatrix1 TYPE_RATIONAL 9 358))"
proof -
  let ?ifd = "assembleIfd example_meta (fst (writeStream example_meta example_pixels))"
  let ?e = "entry TAG_ColorMatrix1 TYPE_RATIONAL 9 358"
  have e: "?e \<in> set ?ifd"
    by (simp add: writeStream_eq assembleIfd_def layoutOffsets_def)
  have p: "4 < payload ?e"
    by simp
  have "\<forall>e \<in> set ?ifd. 4 < payload e \<longrightarrow>
            length (tiffHeader @ ifdBytes ?ifd @ replicate 24 0) \<le> unat (value_e e)
          \<and> unat (value_e e) + payload e
              \<le> length (tiffHeader @ ifdBytes ?ifd @ replicate 24 0 @ dataBlocks example_meta)"
    using stream_order [OF example_write refl] by (elim conjE)
  with e p have "length (tiffHeader @ ifdBytes ?ifd @ replicate 24 0) \<le> unat (value_e ?e)"
    by blast
  with example_write e p show ?thesis
    by (intro conjI)
qed

section \<open>The writer's early return and the informational fields\<close>

text \<open>
  Claim C6. When the number of samples differs from \<open>width * height\<close>, \<open>DngWriter::write\<close>
  returns \<open>false\<close> before it opens the stream: the file system after the call is the file
  system before it, so no file is created or modified.
\<close>

theorem write_size_mismatch_no_effect:
  assumes "length pixels \<noteq> unat (width meta) * unat (height meta)"
  shows "DngWriter_write path meta pixels fs = (False, fs)"
  using assms by (simp add: DngWriter_write_def)

theorem write_size_mismatch_witness:
  "length (replicate 15 (512 :: uint16_t)) \<noteq> unat (4 :: uint32_t) * unat (4 :: uint32_t)
   \<and> DngWriter_write ''out/imx296_000000.dng''
        \<lparr>width = 4, height = 4, bayer = RGGB, bitsPerSample = 16, blackLevel = 0,
          whiteLevel = 1023, analogGain = 1, exposureSeconds = 0.008, cfaIlluminant = 21\<rparr>
        (replicate 15 512) \<lparr>files = Map.empty, can_open = (\<lambda>p. True)\<rparr>
     = (False, \<lparr>files = Map.empty, can_open = (\<lambda>p. True)\<rparr>)"
  using write_size_mismatch_no_effect
    [of "replicate 15 512"
        "\<lparr>width = 4, height = 4, bayer = RGGB, bitsPerSample = 16, blackLevel = 0,
          whiteLevel = 1023, analogGain = 1, exposureSeconds = 0.008, cfaIlluminant = 21\<rparr>"
        "''out/imx296_000000.dng''" "\<lparr>files = Map.empty, can_open = (\<lambda>p. True)\<rparr>"]
  by simp

lemma write_update_gain_exposure:
  "DngWriter_write path (meta\<lparr>analogGain := g, exposureSeconds := e\<rparr>) pixels fs
     = DngWriter_write path meta pixels fs"
  by (simp add: DngWriter_write_def writeStream_def writeBlocks_def assembleIfd_def)

text \<open>
  Claim C10. Let two values of \<open>DngMeta\<close> agree on every field but \<open>analogGain\<close> and
  \<open>exposureSeconds\<close>. For the same path, samples and file system the writer returns the
  same result and leaves the same file system, hence the same bytes in the file: neither
  field reaches the output.
\<close>

theorem write_ignores_gain_and_exposure:
  assumes "width m1 = width m2" and "height m1 = height m2" and "bayer m1 = bayer m2"
    and "bitsPerSample m1 = bitsPerSample m2" and "blackLevel m1 = blackLevel m2"
    and "whiteLevel m1 = whiteLevel m2" and "cfaIlluminant m1 = cfaIlluminant m2"
  shows "DngWriter_write path m1 pixels fs = DngWriter_write path m2 pixels fs"
proof -
  have "m2 = m1\<lparr>analogGain := analogGain m2, exposureSeconds := exposureSeconds m2\<rparr>"
    using assms by (intro DngMeta.equality) simp_all
  then show ?thesis
    using write_update_gain_exposure
      [where meta = m1 and g = "analogGain m2" and e = "exposureSeconds m2"]
    by simp
qed

theorem write_ignores_gain_and_exposure_witness:
  "width example_meta = width (example_meta\<lparr>analogGain := 2, exposureSeconds := 0.004\<rparr>)
   \<and> cfaIlluminant example_meta
       = cfaIlluminant (example_meta\<lparr>analogGain := 2, exposureSeconds := 0.004\<rparr>)
   \<and> analogGain example_meta
       \<noteq> analogGain (example_meta\<lparr>analogGain := 2, exposureSeconds := 0.004\<rparr>)
   \<and> DngWriter_write ''out/imx296_000000.dng'' example_meta example_pixels example_fs
       = DngWriter_write ''out/imx296_000000.dng''
           (example_meta\<lparr>analogGain := 2, exposureSeconds := 0.004\<rparr>) example_pixels example_fs"
proof -
  let ?m = "example_meta\<lparr>analogGain := 2, exposureSeconds := 0.004\<rparr>"
  have "DngWriter_write ''out/imx296_000000.dng'' example_meta example_pixels example_fs
       = DngWriter_write ''out/imx296_000000.dng'' ?m example_pixels example_fs"
    by (rule write_ignores_gain_and_exposure) simp_all
  moreover have "analogGain example_meta \<noteq> analogGain ?m"
    by (simp add: example_meta_def)
  ultimately show ?thesis
    by simp
qed

end
